theory Spec2Isabelle
  imports Main
begin

section \<open>Strings, characters and integers as Python has them\<close>

text \<open>
  Strings are lists of 8-bit characters, so the model covers the Latin-1 range of Python's
  \<^verbatim>\<open>str\<close>. Within that range the only characters matched by \<^verbatim>\<open>\d\<close> are the ASCII digits,
  and \<^verbatim>\<open>str.lower\<close> maps A-Z and the accented capitals 0xC0-0xDE (without the
  multiplication sign 0xD7) to the character 32 positions higher.
\<close>

definition is_digit :: "char \<Rightarrow> bool" where
  "is_digit c = (48 \<le> (of_char c :: nat) \<and> (of_char c :: nat) \<le> 57)"

definition digit_val :: "char \<Rightarrow> nat" where
  "digit_val c = (of_char c :: nat) - 48"

definition digit_char :: "nat \<Rightarrow> char" where
  "digit_char d = ''0123456789'' ! d"

definition lower_char :: "char \<Rightarrow> char" where
  "lower_char c =
     (let n = (of_char c :: nat)
      in if (65 \<le> n \<and> n \<le> 90) \<or> (192 \<le> n \<and> n \<le> 222 \<and> n \<noteq> 215)
         then char_of (n + 32) else c)"

definition lower :: "string \<Rightarrow> string" where
  "lower s = map lower_char s"

text \<open>\<^verbatim>\<open>s.replace(' ', '')\<close>: only the space character U+0020 is removed.\<close>

definition remove_spaces :: "string \<Rightarrow> string" where
  "remove_spaces s = filter (\<lambda>c. c \<noteq> CHR '' '') s"

text \<open>
  \<^verbatim>\<open>int(s)\<close> on a string of decimal digits (the only strings the code converts). Integers
  are unbounded; the interpreter's configurable limit on the length of a converted string
  is not modelled.
\<close>

definition int_of_digits :: "string \<Rightarrow> int" where
  "int_of_digits s = int (foldl (\<lambda>acc c. 10 * acc + digit_val c) 0 s)"

text \<open>\<^verbatim>\<open>str(n)\<close> for an integer: decimal digits without leading zeros, a minus sign
  for negative numbers.\<close>

fun digits_of :: "nat \<Rightarrow> string" where
  "digits_of n = (if n < 10 then [digit_char n] else digits_of (n div 10) @ [digit_char (n mod 10)])"

declare digits_of.simps [simp del]

definition str_int :: "int \<Rightarrow> string" where
  "str_int i = (if i < 0 then CHR ''-'' # digits_of (nat (- i)) else digits_of (nat i))"

fun join :: "string \<Rightarrow> string list \<Rightarrow> string" where
  "join sep [] = []"
| "join sep [x] = x"
| "join sep (x # y # ys) = x @ sep @ join sep (y # ys)"

text \<open>\<^verbatim>\<open>str(rolls)\<close> for a list of integers, as an f-string prints it.\<close>

definition str_list :: "int list \<Rightarrow> string" where
  "str_list xs = ''['' @ join '', '' (map str_int xs) @ '']''"

section \<open>The random number generator\<close>

text \<open>
  \<^verbatim>\<open>random\<close> is a global generator: every call of \<^verbatim>\<open>random.randint\<close> consumes one draw.
  The generator is modelled as an arbitrary infinite tape of raw values and the number of
  draws consumed so far; \<^verbatim>\<open>randint(lo, hi)\<close> maps the next raw value into \<open>[lo, hi]\<close>. Every
  value of the range is drawn for some tape, so a statement proved for all generators holds
  for every outcome of the draws. Python raises on an empty range; both callers validate
  \<open>1 \<le> sides\<close> before the first draw, so the model is only ever used with \<open>lo \<le> hi\<close>.
\<close>

record rng =
  tape :: "nat \<Rightarrow> nat"
  pos :: nat

definition randint :: "int \<Rightarrow> int \<Rightarrow> rng \<Rightarrow> int \<times> rng" where
  "randint lo hi g = (lo + int (tape g (pos g)) mod (hi - lo + 1), g\<lparr>pos := Suc (pos g)\<rparr>)"

section \<open>Results and errors\<close>

record DiceRoll =
  expression :: string
  rolls :: "int list"
  total :: int
  breakdown :: string

datatype error = ValueError string | OtherException string

section \<open>DiceManager\<close>

subsection \<open>roll_simple\<close>

text \<open>\<^verbatim>\<open>[random.randint(1, sides) for _ in range(num_dice)]\<close>\<close>

fun roll_n :: "nat \<Rightarrow> int \<Rightarrow> rng \<Rightarrow> int list \<times> rng" where
  "roll_n 0 sides g = ([], g)"
| "roll_n (Suc n) sides g =
     (let (r, g1) = randint 1 sides g;
          (rs, g2) = roll_n n sides g1
      in (r # rs, g2))"

definition roll_simple :: "int \<Rightarrow> int \<Rightarrow> rng \<Rightarrow> int list \<times> rng" where
  "roll_simple num_dice sides g = roll_n (nat num_dice) sides g"

subsection \<open>DICE_PATTERN and parse_expression\<close>

text \<open>
  \<^verbatim>\<open>DICE_PATTERN = (\d+)d(\d+)(?:([+-])(\d+))?\<close>, used with \<^verbatim>\<open>match\<close>: anchored at the start of
  the string, not at its end. Both \<^verbatim>\<open>\d+\<close> are greedy and what follows each of them is not a
  digit, so the greedy choice is the only one: group 1 is the longest run of digits, then
  the letter d, group 2 the longest run of digits, and the optional group takes a sign
  followed by the longest non-empty run of digits when they are there. The result is the
  groups (1, 2, and 3 with 4 when they took part).
\<close>

definition is_sign :: "char \<Rightarrow> bool" where
  "is_sign c = (c = CHR ''+'' \<or> c = CHR ''-'')"

definition dice_pattern_match :: "string \<Rightarrow> (string \<times> string \<times> (char \<times> string) option) option" where
  "dice_pattern_match s =
     (let g1 = takeWhile is_digit s; r1 = dropWhile is_digit s
      in if g1 = [] then None
         else (case r1 of
                 [] \<Rightarrow> None
               | c # r2 \<Rightarrow>
                   if c \<noteq> CHR ''d'' then None
                   else (let g2 = takeWhile is_digit r2; r3 = dropWhile is_digit r2
                         in if g2 = [] then None
                            else (case r3 of
                                    [] \<Rightarrow> Some (g1, g2, None)
                                  | c' # r4 \<Rightarrow>
                                      if is_sign c' \<and> takeWhile is_digit r4 \<noteq> []
                                      then Some (g1, g2, Some (c', takeWhile is_digit r4))
                                      else Some (g1, g2, None)))))"

definition parse_expression :: "string \<Rightarrow> error + (int \<times> int \<times> char \<times> int)" where
  "parse_expression expr =
     (case dice_pattern_match (remove_spaces (lower expr)) of
        None \<Rightarrow> Inl (ValueError (''Invalid dice expression: '' @ expr))
      | Some (g1, g2, m) \<Rightarrow>
          (let num_dice = int_of_digits g1; sides = int_of_digits g2
           in case m of
                Some (operator, g4) \<Rightarrow> Inr (num_dice, sides, operator, int_of_digits g4)
              | None \<Rightarrow> Inr (num_dice, sides, CHR ''+'', 0)))"

subsection \<open>roll\<close>

text \<open>
  The result pairs what \<^verbatim>\<open>roll\<close> returns or raises with the generator afterwards, so that
  the draws made before an exception would show.
\<close>

definition roll :: "string \<Rightarrow> rng \<Rightarrow> (error + DiceRoll) \<times> rng" where
  "roll expr g =
     (case parse_expression expr of
        Inl e \<Rightarrow> (Inl e, g)
      | Inr (num_dice, sides, operator, modifier) \<Rightarrow>
          if num_dice \<le> 0 \<or> sides \<le> 0
          then (Inl (ValueError (''Invalid dice parameters: '' @ str_int num_dice @ ''d'' @ str_int sides)), g)
          else if num_dice > 100
          then (Inl (ValueError (''Too many dice: '' @ str_int num_dice @ '' (max 100)'')), g)
          else if sides > 1000
          then (Inl (ValueError (''Too many sides: '' @ str_int sides @ '' (max 1000)'')), g)
          else (let (rs, g') = roll_simple num_dice sides g;
                    dice_sum = sum_list rs
                in if operator = CHR ''+''
                   then (Inr \<lparr>expression = expr, rolls = rs, total = dice_sum + modifier,
                              breakdown = (if modifier \<noteq> 0
                                           then str_int dice_sum @ '' + '' @ str_int modifier
                                           else str_int dice_sum)\<rparr>, g')
                   else (Inr \<lparr>expression = expr, rolls = rs, total = dice_sum - modifier,
                              breakdown = (if modifier \<noteq> 0
                                           then str_int dice_sum @ '' - '' @ str_int modifier
                                           else str_int dice_sum)\<rparr>, g')))"

subsection \<open>ADV_DICE_PATTERN, the modifier search and OPERATORS\<close>

text \<open>
  \<^verbatim>\<open>ADV_DICE_PATTERN = (?:(\d+))?d(\d+)((?:[+-]\d+|[adkxr!><]\d*)*)\<close>, used with \<^verbatim>\<open>match\<close>.
  Group 3 is the longest run of option tokens: a sign with at least one digit, or one of
  the option characters with any number of digits. Nothing follows the loop in the
  pattern, so the greedy run is the match.
\<close>

definition is_opchar :: "char \<Rightarrow> bool" where
  "is_opchar c = (c \<in> set ''adkxr!><'')"

function adv_options :: "string \<Rightarrow> string" where
  "adv_options [] = []"
| "adv_options (c # cs) =
     (if (is_sign c \<and> takeWhile is_digit cs \<noteq> []) \<or> is_opchar c
      then c # takeWhile is_digit cs @ adv_options (dropWhile is_digit cs)
      else [])"
  by pat_completeness auto
termination
  by (relation "measure length") (auto simp: le_imp_less_Suc length_dropWhile_le)

definition adv_dice_pattern_match :: "string \<Rightarrow> (string option \<times> string \<times> string) option" where
  "adv_dice_pattern_match s =
     (let g1 = takeWhile is_digit s; r1 = dropWhile is_digit s
      in case r1 of
           [] \<Rightarrow> None
         | c # r2 \<Rightarrow>
             if c \<noteq> CHR ''d'' then None
             else (let g2 = takeWhile is_digit r2
                   in if g2 = [] then None
                      else Some (if g1 = [] then None else Some g1, g2,
                                 adv_options (dropWhile is_digit r2))))"

text \<open>
  \<^verbatim>\<open>re.search(r'([+-])(\d+)$', options)\<close>: the leftmost position where a sign is followed by
  digits up to the end of the string (\<^verbatim>\<open>$\<close> also matches before a final newline). The
  result is the start of the match and groups 1 and 2.
\<close>

definition at_dollar :: "string \<Rightarrow> bool" where
  "at_dollar r = (r = [] \<or> r = [CHR 0x0A])"

fun mod_search :: "string \<Rightarrow> (nat \<times> char \<times> string) option" where
  "mod_search [] = None"
| "mod_search (c # cs) =
     (if is_sign c \<and> takeWhile is_digit cs \<noteq> [] \<and> at_dollar (dropWhile is_digit cs)
      then Some (0, c, takeWhile is_digit cs)
      else (case mod_search cs of
              None \<Rightarrow> None
            | Some (i, sg, ds) \<Rightarrow> Some (Suc i, sg, ds)))"

text \<open>
  \<^verbatim>\<open>OPERATORS.finditer(options)\<close> with \<^verbatim>\<open>OPERATORS = ([adkxr!><])(\d*)\<close>: the non-overlapping
  matches from left to right, each an option character with the digits after it;
  characters that start no match are skipped.
\<close>

function operators_finditer :: "string \<Rightarrow> (char \<times> string) list" where
  "operators_finditer [] = []"
| "operators_finditer (c # cs) =
     (if is_opchar c
      then (c, takeWhile is_digit cs) # operators_finditer (dropWhile is_digit cs)
      else operators_finditer cs)"
  by pat_completeness auto
termination
  by (relation "measure length") (auto simp: le_imp_less_Suc length_dropWhile_le)

subsection \<open>roll_advanced\<close>

record options =
  advantage :: bool
  disadvantage :: bool
  keep_highest :: int
  keep_lowest :: int
  exploding :: bool
  reroll_threshold :: int

definition initial_options :: options where
  "initial_options = \<lparr>advantage = False, disadvantage = False, keep_highest = 0,
                       keep_lowest = 0, exploding = False, reroll_threshold = 0\<rparr>"

text \<open>The body of the loop over the option matches.\<close>

definition apply_operator :: "int \<Rightarrow> options \<Rightarrow> char \<times> string \<Rightarrow> options" where
  "apply_operator num_dice opts m =
     (let op = fst m;
          v = (if snd m \<noteq> [] then int_of_digits (snd m) else 0)
      in if op = CHR ''a'' then opts\<lparr>advantage := True\<rparr>
         else if op = CHR ''d'' then opts\<lparr>disadvantage := True\<rparr>
         else if op = CHR ''k'' then opts\<lparr>keep_highest := (if v \<noteq> 0 then v else num_dice)\<rparr>
         else if op = CHR ''x'' then opts\<lparr>keep_lowest := (if v \<noteq> 0 then v else num_dice)\<rparr>
         else if op = CHR ''!'' then opts\<lparr>exploding := True\<rparr>
         else if op = CHR ''r'' then opts\<lparr>reroll_threshold := (if v \<noteq> 0 then v else 1)\<rparr>
         else opts)"

text \<open>The modifier is split off the option string, then the option matches are applied
  in order.\<close>

definition parse_options :: "int \<Rightarrow> string \<Rightarrow> options \<times> int" where
  "parse_options num_dice optstr =
     (case mod_search optstr of
        Some (start, mod_operator, ds) \<Rightarrow>
          (foldl (apply_operator num_dice) initial_options (operators_finditer (take start optstr)),
           if mod_operator = CHR ''+'' then int_of_digits ds else - int_of_digits ds)
      | None \<Rightarrow>
          (foldl (apply_operator num_dice) initial_options (operators_finditer optstr), 0))"

text \<open>
  The exploding loop \<^verbatim>\<open>while roll == sides\<close>. Nothing in the source bounds it, so it is a
  partial function: \<open>None\<close> stands for a loop that never ends.
\<close>

partial_function (option) explode_while :: "int \<Rightarrow> int \<Rightarrow> int list \<Rightarrow> rng \<Rightarrow> (int list \<times> rng) option" where
  "explode_while sides r temp_rolls g =
     (if r = sides
      then (let d = randint 1 sides g
            in explode_while sides (fst d) (temp_rolls @ [fst d]) (snd d))
      else Some (temp_rolls, g))"

declare explode_while.simps [code]

fun explode_for :: "nat \<Rightarrow> int \<Rightarrow> int list \<Rightarrow> rng \<Rightarrow> (int list \<times> rng) option" where
  "explode_for 0 sides temp_rolls g = Some (temp_rolls, g)"
| "explode_for (Suc n) sides temp_rolls g =
     (let d = randint 1 sides g
      in case explode_while sides (fst d) (temp_rolls @ [fst d]) (snd d) of
           None \<Rightarrow> None
         | Some (temp_rolls', g') \<Rightarrow> explode_for n sides temp_rolls' g')"

text \<open>\<^verbatim>\<open>for i, roll in enumerate(rolls): if roll <= reroll_threshold: rolls[i] = randint(1, sides)\<close>\<close>

fun reroll_loop :: "int \<Rightarrow> int \<Rightarrow> int list \<Rightarrow> rng \<Rightarrow> int list \<times> rng" where
  "reroll_loop threshold sides [] g = ([], g)"
| "reroll_loop threshold sides (r # rs) g =
     (if r \<le> threshold
      then (let (r', g1) = randint 1 sides g;
                (rs', g2) = reroll_loop threshold sides rs g1
            in (r' # rs', g2))
      else (let (rs', g2) = reroll_loop threshold sides rs g
            in (r # rs', g2)))"

text \<open>The total and the modifier term of the breakdown, and the result.\<close>

definition finish :: "string \<Rightarrow> int list \<Rightarrow> string \<Rightarrow> int \<Rightarrow> DiceRoll" where
  "finish expr rs bd modifier =
     \<lparr>expression = expr, rolls = rs, total = sum_list rs + modifier,
      breakdown = (if modifier \<noteq> 0
                   then bd @ '' '' @ (if modifier > 0 then ''+'' else ''-'') @ '' '' @ str_int \<bar>modifier\<bar>
                   else bd)\<rparr>"

text \<open>
  The rolling part of \<^verbatim>\<open>roll_advanced\<close>, after parsing and validation, block by block:
  the two rolls of advantage and disadvantage; otherwise the first rolls (exploding or
  normal), the rerolls, keep highest and keep lowest, each working on the rolls and the
  breakdown left by the block before.
\<close>

definition advantage_rolls :: "bool \<Rightarrow> int \<Rightarrow> int \<Rightarrow> rng \<Rightarrow> int list \<times> string \<times> rng" where
  "advantage_rolls adv num_dice sides g =
     (let (roll1, g1) = roll_simple num_dice sides g;
          (roll2, g2) = roll_simple num_dice sides g1
      in if adv
         then (if sum_list roll1 > sum_list roll2 then roll1 else roll2,
               ''Advantage: '' @ str_int (sum_list roll1) @ '' vs '' @ str_int (sum_list roll2), g2)
         else (if sum_list roll1 < sum_list roll2 then roll1 else roll2,
               ''Disadvantage: '' @ str_int (sum_list roll1) @ '' vs '' @ str_int (sum_list roll2), g2))"

definition first_rolls :: "bool \<Rightarrow> int \<Rightarrow> int \<Rightarrow> rng \<Rightarrow> (int list \<times> string \<times> rng) option" where
  "first_rolls expl num_dice sides g =
     (if expl
      then (case explode_for (nat num_dice) sides [] g of
              None \<Rightarrow> None
            | Some (rs, g1) \<Rightarrow> Some (rs, ''Exploding: '' @ str_list rs, g1))
      else (let (rs, g1) = roll_simple num_dice sides g
            in Some (rs, ''Rolls: '' @ str_list rs, g1)))"

definition handle_rerolls :: "int \<Rightarrow> int \<Rightarrow> int list \<times> string \<times> rng \<Rightarrow> int list \<times> string \<times> rng" where
  "handle_rerolls threshold sides st =
     (case st of (rs, bd, g) \<Rightarrow>
        if threshold > 0
        then (let (rs', g') = reroll_loop threshold sides rs g
              in (rs', bd @ '' (Rerolls: '' @ str_int threshold @ ''+)'', g'))
        else (rs, bd, g))"

definition handle_keep_highest :: "int \<Rightarrow> int list \<times> string \<Rightarrow> int list \<times> string" where
  "handle_keep_highest k st =
     (case st of (rs, bd) \<Rightarrow>
        if k > 0 \<and> k < int (length rs)
        then (take (nat k) (rev (sort rs)), bd @ '' (Keep highest '' @ str_int k @ '')'')
        else (rs, bd))"

definition handle_keep_lowest :: "int \<Rightarrow> int list \<times> string \<Rightarrow> int list \<times> string" where
  "handle_keep_lowest k st =
     (case st of (rs, bd) \<Rightarrow>
        if k > 0 \<and> k < int (length rs)
        then (take (nat k) (sort rs), bd @ '' (Keep lowest '' @ str_int k @ '')'')
        else (rs, bd))"

definition roll_with_options :: "string \<Rightarrow> int \<Rightarrow> int \<Rightarrow> options \<Rightarrow> int \<Rightarrow> rng \<Rightarrow> (DiceRoll \<times> rng) option" where
  "roll_with_options expr num_dice sides opts modifier g =
     (if advantage opts \<or> disadvantage opts
      then (let (rs, bd, g2) = advantage_rolls (advantage opts) num_dice sides g
            in Some (finish expr rs bd modifier, g2))
      else (case first_rolls (exploding opts) num_dice sides g of
              None \<Rightarrow> None
            | Some (rs, bd, g1) \<Rightarrow>
                (let (rs1, bd1, g2) = handle_rerolls (reroll_threshold opts) sides (rs, bd, g1);
                     (rs2, bd2) = handle_keep_highest (keep_highest opts) (rs1, bd1);
                     (rs3, bd3) = handle_keep_lowest (keep_lowest opts) (rs2, bd2)
                 in Some (finish expr rs3 bd3 modifier, g2))))"

text \<open>A list of rolls of a die with the given number of sides.\<close>

definition in_faces :: "int \<Rightarrow> int list \<Rightarrow> bool" where
  "in_faces sides rs = (\<forall>x\<in>set rs. 1 \<le> x \<and> x \<le> sides)"

text \<open>\<open>None\<close>: the call never returns. Otherwise the result or the exception raised, with
  the generator afterwards.\<close>

definition roll_advanced :: "string \<Rightarrow> rng \<Rightarrow> ((error + DiceRoll) \<times> rng) option" where
  "roll_advanced expr g =
     (case adv_dice_pattern_match (remove_spaces (lower expr)) of
        None \<Rightarrow> Some (Inl (ValueError (''Invalid dice expression: '' @ expr)), g)
      | Some (g1, g2, optstr) \<Rightarrow>
          (let num_dice = (case g1 of Some ds \<Rightarrow> int_of_digits ds | None \<Rightarrow> 1);
               sides = int_of_digits g2
           in if num_dice \<le> 0 \<or> sides \<le> 0
              then Some (Inl (ValueError (''Invalid dice parameters: '' @ str_int num_dice @ ''d'' @ str_int sides)), g)
              else if num_dice > 100
              then Some (Inl (ValueError (''Too many dice: '' @ str_int num_dice @ '' (max 100)'')), g)
              else if sides > 1000
              then Some (Inl (ValueError (''Too many sides: '' @ str_int sides @ '' (max 1000)'')), g)
              else (let (opts, modifier) = parse_options num_dice optstr
                    in case roll_with_options expr num_dice sides opts modifier g of
                         None \<Rightarrow> None
                       | Some (r, g') \<Rightarrow> Some (Inr r, g'))))"

subsection \<open>roll_with_context\<close>

text \<open>
  The character classes \<^verbatim>\<open>\w\<close> and \<^verbatim>\<open>\s\<close> of Python's \<^verbatim>\<open>re\<close> on the Latin-1 range, and the
  case conversions used for the label of a check. \<^verbatim>\<open>str.upper\<close> sends two Latin-1 letters
  (0xB5 and 0xFF) outside Latin-1; the model leaves them as they are, which only shows
  in the label of an ability or skill check.
\<close>

definition is_word :: "char \<Rightarrow> bool" where
  "is_word c =
     (let n = (of_char c :: nat)
      in (48 \<le> n \<and> n \<le> 57) \<or> (65 \<le> n \<and> n \<le> 90) \<or> n = 95 \<or> (97 \<le> n \<and> n \<le> 122)
         \<or> n = 170 \<or> n = 178 \<or> n = 179 \<or> n = 181 \<or> n = 185 \<or> n = 186
         \<or> (188 \<le> n \<and> n \<le> 190) \<or> (192 \<le> n \<and> n \<le> 214) \<or> (216 \<le> n \<and> n \<le> 246)
         \<or> 248 \<le> n)"

definition is_space :: "char \<Rightarrow> bool" where
  "is_space c =
     (let n = (of_char c :: nat)
      in (9 \<le> n \<and> n \<le> 13) \<or> (28 \<le> n \<and> n \<le> 32) \<or> n = 133 \<or> n = 160)"

definition is_cased :: "char \<Rightarrow> bool" where
  "is_cased c =
     (let n = (of_char c :: nat)
      in (65 \<le> n \<and> n \<le> 90) \<or> (97 \<le> n \<and> n \<le> 122) \<or> n = 170 \<or> n = 181 \<or> n = 186
         \<or> (192 \<le> n \<and> n \<le> 214) \<or> (216 \<le> n \<and> n \<le> 246) \<or> 248 \<le> n)"

definition upper_char :: "char \<Rightarrow> string" where
  "upper_char c =
     (let n = (of_char c :: nat)
      in if (97 \<le> n \<and> n \<le> 122) \<or> (224 \<le> n \<and> n \<le> 254 \<and> n \<noteq> 247) then [char_of (n - 32)]
         else if n = 223 then ''SS''
         else [c])"

definition upper :: "string \<Rightarrow> string" where
  "upper s = concat (map upper_char s)"

definition title_char :: "char \<Rightarrow> string" where
  "title_char c = (if (of_char c :: nat) = 223 then ''Ss'' else upper_char c)"

fun title_from :: "bool \<Rightarrow> string \<Rightarrow> string" where
  "title_from previous_is_cased [] = []"
| "title_from previous_is_cased (c # cs) =
     (if previous_is_cased then [lower_char c] else title_char c) @ title_from (is_cased c) cs"

definition title :: "string \<Rightarrow> string" where
  "title s = title_from False s"

text \<open>
  \<^verbatim>\<open>re.match(r'(\w+)\s+check', s)\<close>, group 1. Word characters and white space are disjoint and
  the letter c is not white space, so the greedy runs are the only candidates.
\<close>

definition check_match :: "string \<Rightarrow> string option" where
  "check_match s =
     (let w = takeWhile is_word s; r = dropWhile is_word s
      in if w \<noteq> [] \<and> takeWhile is_space r \<noteq> [] \<and> take 5 (dropWhile is_space r) = ''check''
         then Some w else None)"

text \<open>
  \<^verbatim>\<open>re.match(r'(\w+(?:\s+\w+)?)\s+skill', s)\<close>, group 1. The optional second word is tried
  first; when white space and \<^verbatim>\<open>skill\<close> do not follow it, the match is retried without it.
\<close>

definition skill_match :: "string \<Rightarrow> string option" where
  "skill_match s =
     (let w1 = takeWhile is_word s; r1 = dropWhile is_word s;
          sp1 = takeWhile is_space r1; r2 = dropWhile is_space r1;
          w2 = takeWhile is_word r2; r3 = dropWhile is_word r2
      in if w1 = [] \<or> sp1 = [] then None
         else if w2 \<noteq> [] \<and> takeWhile is_space r3 \<noteq> [] \<and> take 5 (dropWhile is_space r3) = ''skill''
         then Some (w1 @ sp1 @ w2)
         else if take 5 r2 = ''skill'' then Some w1
         else None)"

text \<open>\<^verbatim>\<open>re.match(r'^[+-]?\d+$', s)\<close> and \<^verbatim>\<open>int(s)\<close> on a string that matched.\<close>

definition signed_int_match :: "string \<Rightarrow> bool" where
  "signed_int_match s =
     (let r = (case s of [] \<Rightarrow> [] | c # cs \<Rightarrow> if is_sign c then cs else s)
      in takeWhile is_digit r \<noteq> [] \<and> at_dollar (dropWhile is_digit r))"

definition int_of_signed :: "string \<Rightarrow> int" where
  "int_of_signed s =
     (case s of
        [] \<Rightarrow> 0
      | c # cs \<Rightarrow>
          if c = CHR ''-'' then - int_of_digits (takeWhile is_digit cs)
          else if c = CHR ''+'' then int_of_digits (takeWhile is_digit cs)
          else int_of_digits (takeWhile is_digit s))"

text \<open>
  The character passed to \<^verbatim>\<open>roll_with_context\<close> is an object of another subsystem: its two
  methods are parameters here, and each may raise.
\<close>

record character =
  get_ability_modifier :: "string \<Rightarrow> error + int"
  get_skill_bonus :: "string \<Rightarrow> error + int"

text \<open>The handler of the outer \<^verbatim>\<open>except Exception\<close>: roll the expression with \<^verbatim>\<open>roll\<close>, and
  roll 1d20 when that raises.\<close>

definition fallback :: "string \<Rightarrow> rng \<Rightarrow> (error + DiceRoll) \<times> rng" where
  "fallback expr g =
     (case roll expr g of
        (Inr r, g') \<Rightarrow> (Inr r, g')
      | (Inl e, g') \<Rightarrow> roll ''1d20'' g')"

text \<open>An ability or skill check: 1d20 with the bonus, rolled by \<^verbatim>\<open>roll\<close> and relabelled.\<close>

definition roll_check :: "string \<Rightarrow> (string \<Rightarrow> string) \<Rightarrow> string \<Rightarrow> (error + int) \<Rightarrow> rng \<Rightarrow> (error + DiceRoll) \<times> rng" where
  "roll_check expr label name bonus g =
     (case bonus of
        Inl e \<Rightarrow> fallback expr g
      | Inr modifier \<Rightarrow>
          (let dice_expr = ''1d20'' @ (if modifier \<ge> 0 then ''+'' else []) @ str_int modifier
           in case roll dice_expr g of
                (Inl e, g') \<Rightarrow> fallback expr g'
              | (Inr result, g') \<Rightarrow>
                  (Inr (result\<lparr>expression := label name @ '' check ('' @ dice_expr @ '')''\<rparr>), g')))"

text \<open>The standard roll: a string without the letter d becomes a d20 roll, then
  \<^verbatim>\<open>roll_advanced\<close> is tried, \<^verbatim>\<open>roll\<close> after a \<^verbatim>\<open>ValueError\<close>, and the handler after that.\<close>

definition standard_roll :: "string \<Rightarrow> rng \<Rightarrow> ((error + DiceRoll) \<times> rng) option" where
  "standard_roll expr0 g =
     (let expr = (if CHR ''d'' \<notin> set expr0
                  then (if signed_int_match expr0
                        then (let m = int_of_signed expr0
                              in ''1d20'' @ (if m \<ge> 0 then ''+'' else []) @ str_int m)
                        else ''1d20'')
                  else expr0)
      in case roll_advanced expr g of
           None \<Rightarrow> None
         | Some (Inr r, g1) \<Rightarrow> Some (Inr r, g1)
         | Some (Inl (ValueError msg), g1) \<Rightarrow>
             (case roll expr g1 of
                (Inr r, g2) \<Rightarrow> Some (Inr r, g2)
              | (Inl e, g2) \<Rightarrow> Some (fallback expr g2))
         | Some (Inl (OtherException msg), g1) \<Rightarrow> Some (fallback expr g1))"

definition roll_with_context :: "string \<Rightarrow> character option \<Rightarrow> rng \<Rightarrow> ((error + DiceRoll) \<times> rng) option" where
  "roll_with_context expr ch g =
     (let ability_match = check_match (lower expr);
          skill_m = skill_match (lower expr)
      in case ch of
           None \<Rightarrow> standard_roll expr g
         | Some c \<Rightarrow>
             (case ability_match of
                Some grp \<Rightarrow>
                  (let ability = lower grp
                   in Some (roll_check expr upper ability (get_ability_modifier c ability) g))
              | None \<Rightarrow>
                  (case skill_m of
                     Some grp \<Rightarrow>
                       (let skill = lower grp
                        in Some (roll_check expr title skill (get_skill_bonus c skill) g))
                   | None \<Rightarrow> standard_roll expr g)))"

subsection \<open>parse_dice_in_text\<close>

text \<open>
  The two patterns that scan the text end in \<^verbatim>\<open>\b\<close>, which can force a shorter match than
  the greedy one, so they are run by a small backtracking matcher: \<open>ends t r i\<close> lists the
  positions where a match of \<open>r\<close> that starts at position \<open>i\<close> of \<open>t\<close> can end, in the order
  in which Python's matcher tries them (greedy first). A repetition stops when its body
  matches the empty string.
\<close>

datatype rx = Cls "char \<Rightarrow> bool" | Bound | Seq rx rx | Opt rx | Star rx

definition word_boundary :: "string \<Rightarrow> nat \<Rightarrow> bool" where
  "word_boundary t i = ((0 < i \<and> i \<le> length t \<and> is_word (t ! (i - 1))) \<noteq> (i < length t \<and> is_word (t ! i)))"

function ends :: "string \<Rightarrow> rx \<Rightarrow> nat \<Rightarrow> nat list" where
  "ends t (Cls P) i = (if i < length t \<and> P (t ! i) then [Suc i] else [])"
| "ends t Bound i = (if word_boundary t i then [i] else [])"
| "ends t (Seq a b) i = concat (map (ends t b) (ends t a i))"
| "ends t (Opt a) i = ends t a i @ [i]"
| "ends t (Star a) i =
     concat (map (\<lambda>j. if i < j \<and> j \<le> length t then ends t (Star a) j else []) (ends t a i)) @ [i]"
  by pat_completeness auto
termination
  by (relation "measures [\<lambda>(t, r, i). size r, \<lambda>(t, r, i). length t - i]") auto

definition Plus :: "rx \<Rightarrow> rx" where
  "Plus a = Seq a (Star a)"

definition Chr :: "char \<Rightarrow> rx" where
  "Chr c = Cls (\<lambda>x. x = c)"

text \<open>\<^verbatim>\<open>re.finditer\<close>: the first way to match at the leftmost position, then on from the end
  of that match. The result is the text of each match.\<close>

function finditer_from :: "string \<Rightarrow> rx \<Rightarrow> nat \<Rightarrow> string list" where
  "finditer_from t r i =
     (if length t < i then []
      else (case ends t r i of
              [] \<Rightarrow> finditer_from t r (Suc i)
            | j # js \<Rightarrow> take (j - i) (drop i t) # finditer_from t r (if i < j then j else Suc i)))"
  by pat_completeness auto
termination
  by (relation "measure (\<lambda>(t, r, i). Suc (length t) - i)") auto

declare finditer_from.simps [simp del]

text \<open>\<^verbatim>\<open>\b(\d+d\d+(?:[+-]\d+)?)\b\<close> and \<^verbatim>\<open>\b(?:\d+)?d\d+(?:[adkxr!><]\d*)*(?:[+-]\d+)?\b\<close>\<close>

definition standard_rx :: rx where
  "standard_rx =
     Seq Bound (Seq (Plus (Cls is_digit)) (Seq (Chr CHR ''d'') (Seq (Plus (Cls is_digit))
       (Seq (Opt (Seq (Cls is_sign) (Plus (Cls is_digit)))) Bound))))"

definition advanced_rx :: rx where
  "advanced_rx =
     Seq Bound (Seq (Opt (Plus (Cls is_digit))) (Seq (Chr CHR ''d'') (Seq (Plus (Cls is_digit))
       (Seq (Star (Seq (Cls is_opchar) (Star (Cls is_digit))))
         (Seq (Opt (Seq (Cls is_sign) (Plus (Cls is_digit)))) Bound)))))"

text \<open>The loop over the expressions: a result is appended, an exception is skipped.\<close>

fun roll_each :: "string list \<Rightarrow> rng \<Rightarrow> (DiceRoll list \<times> rng) option" where
  "roll_each [] g = Some ([], g)"
| "roll_each (e # es) g =
     (case roll_with_context e None g of
        None \<Rightarrow> None
      | Some (Inl err, g1) \<Rightarrow> roll_each es g1
      | Some (Inr r, g1) \<Rightarrow>
          (case roll_each es g1 of
             None \<Rightarrow> None
           | Some (rs, g2) \<Rightarrow> Some (r # rs, g2)))"

text \<open>
  \<^verbatim>\<open>list(set(expressions))\<close> keeps one copy of each string in an order Python does not
  specify; the model keeps the order of the last occurrences. The sort by length,
  longest first, is stable.
\<close>

definition parse_dice_in_text :: "string \<Rightarrow> rng \<Rightarrow> (DiceRoll list \<times> rng) option" where
  "parse_dice_in_text text g =
     (let expressions = finditer_from text standard_rx 0 @ finditer_from text advanced_rx 0;
          expressions = remdups expressions;
          expressions = sort_key (\<lambda>e. - int (length e)) expressions
      in roll_each expressions g)"

section \<open>A generator for the examples\<close>

text \<open>The first raw value is 5, every later one 0: on a d6 the first draw is 6 and the
  others are 1, on a d2 the first draw is 2 and the others are 1.\<close>

definition example_rng :: rng where
  "example_rng = \<lparr>tape = (\<lambda>i. if i = 0 then 5 else 0), pos = 0\<rparr>"

section \<open>Decimal strings and digit runs\<close>

lemma digit_cases: "d < 10 \<Longrightarrow> d \<in> {0, 1, 2, 3, 4, 5, 6, 7, 8, 9 :: nat}"
  by auto

lemma is_digit_digit_char: "d < 10 \<Longrightarrow> is_digit (digit_char d)"
  by (drule digit_cases) (auto simp: is_digit_def digit_char_def)

lemma digit_val_digit_char: "d < 10 \<Longrightarrow> digit_val (digit_char d) = d"
  by (drule digit_cases) (auto simp: digit_val_def digit_char_def)

lemma digits_of_digits: "c \<in> set (digits_of n) \<Longrightarrow> is_digit c"
proof (induction n arbitrary: c rule: digits_of.induct)
  case (1 n)
  show ?case
  proof (cases "n < 10")
    case True
    with "1.prems" show ?thesis
      by (simp add: digits_of.simps [of n] is_digit_digit_char)
  next
    case False
    with "1.prems" "1.IH" show ?thesis
      by (auto simp: digits_of.simps [of n] is_digit_digit_char)
  qed
qed

lemma digits_of_nonempty: "digits_of n \<noteq> []"
  by (subst digits_of.simps) simp

lemma foldl_digits_of: "foldl (\<lambda>acc c. 10 * acc + digit_val c) 0 (digits_of n) = n"
proof (induction n rule: digits_of.induct)
  case (1 n)
  show ?case
  proof (cases "n < 10")
    case True
    then show ?thesis
      by (simp add: digits_of.simps [of n] digit_val_digit_char)
  next
    case False
    with "1.IH" show ?thesis
      by (simp add: digits_of.simps [of n] digit_val_digit_char)
  qed
qed

lemma int_of_digits_digits_of: "int_of_digits (digits_of n) = int n"
  by (simp add: int_of_digits_def foldl_digits_of)

lemma int_of_digits_str_int: "0 \<le> i \<Longrightarrow> int_of_digits (str_int i) = i"
  by (simp add: str_int_def int_of_digits_digits_of)

lemma lower_char_digit: "is_digit c \<Longrightarrow> lower_char c = c"
  by (simp add: lower_char_def is_digit_def Let_def)

lemma digit_not_space: "is_digit c \<Longrightarrow> c \<noteq> CHR '' ''"
  by (auto simp: is_digit_def)

lemma normalise_digits: "\<forall>c\<in>set ds. is_digit c \<Longrightarrow> remove_spaces (lower ds) = ds"
  by (induction ds) (auto simp: remove_spaces_def lower_def lower_char_digit digit_not_space)

lemma normalise_Cons:
  "remove_spaces (lower (c # s)) =
     (if lower_char c = CHR '' '' then [] else [lower_char c]) @ remove_spaces (lower s)"
  by (simp add: remove_spaces_def lower_def)

lemma normalise_append: "remove_spaces (lower (a @ b)) = remove_spaces (lower a) @ remove_spaces (lower b)"
  by (simp add: remove_spaces_def lower_def)

lemma span_digits:
  assumes "\<forall>c\<in>set ds. is_digit c" and "rest = [] \<or> \<not> is_digit (hd rest)"
  shows "takeWhile is_digit (ds @ rest) = ds" and "dropWhile is_digit (ds @ rest) = rest"
proof -
  have "takeWhile is_digit rest = []" "dropWhile is_digit rest = rest"
    using assms(2) by (cases rest; simp)+
  with assms(1) show "takeWhile is_digit (ds @ rest) = ds" "dropWhile is_digit (ds @ rest) = rest"
    by (induction ds) auto
qed

lemma span_digits_unique:
  assumes "s = ds @ rest" "\<forall>c\<in>set ds. is_digit c" "rest = [] \<or> \<not> is_digit (hd rest)"
  shows "ds = takeWhile is_digit s \<and> rest = dropWhile is_digit s"
  using assms span_digits by simp

lemma dropWhile_digit_head: "dropWhile is_digit s = [] \<or> \<not> is_digit (hd (dropWhile is_digit s))"
  by (metis hd_dropWhile)

section \<open>The draws of roll_simple\<close>

lemma randint_range: "1 \<le> sides \<Longrightarrow> 1 \<le> fst (randint 1 sides g) \<and> fst (randint 1 sides g) \<le> sides"
proof -
  assume "1 \<le> sides"
  then have s: "0 < sides" by simp
  have "0 \<le> int (tape g (pos g)) mod sides" "int (tape g (pos g)) mod sides < sides"
    using s by (rule pos_mod_sign, rule pos_mod_bound)
  then show ?thesis by (simp add: randint_def)
qed

lemma roll_n_length: "length (fst (roll_n n sides g)) = n"
  by (induction n arbitrary: g) (simp_all add: Let_def case_prod_beta)

lemma roll_n_range: "1 \<le> sides \<Longrightarrow> x \<in> set (fst (roll_n n sides g)) \<Longrightarrow> 1 \<le> x \<and> x \<le> sides"
proof (induction n arbitrary: g)
  case 0
  then show ?case by simp
next
  case (Suc n)
  obtain r g1 where r: "randint 1 sides g = (r, g1)" by (cases "randint 1 sides g")
  obtain rs g2 where rs: "roll_n n sides g1 = (rs, g2)" by (cases "roll_n n sides g1")
  from Suc.prems r rs have "x = r \<or> x \<in> set (fst (roll_n n sides g1))" by auto
  then show ?case
  proof
    assume "x = r"
    with randint_range [OF Suc.prems(1), of g] r show ?thesis by simp
  next
    assume "x \<in> set (fst (roll_n n sides g1))"
    with Suc.IH [OF Suc.prems(1)] show ?thesis .
  qed
qed

lemma roll_simple_length: "0 \<le> n \<Longrightarrow> int (length (fst (roll_simple n sides g))) = n"
  by (simp add: roll_simple_def roll_n_length)

lemma roll_simple_range: "1 \<le> sides \<Longrightarrow> x \<in> set (fst (roll_simple n sides g)) \<Longrightarrow> 1 \<le> x \<and> x \<le> sides"
  unfolding roll_simple_def by (rule roll_n_range)

section \<open>roll on a count and a number of sides\<close>

lemma dice_pattern_match_plain:
  assumes "\<forall>c\<in>set ds1. is_digit c" "ds1 \<noteq> []" "\<forall>c\<in>set ds2. is_digit c" "ds2 \<noteq> []"
  shows "dice_pattern_match (ds1 @ CHR ''d'' # ds2) = Some (ds1, ds2, None)"
proof -
  have nd: "\<not> is_digit CHR ''d''" by (simp add: is_digit_def)
  have a: "takeWhile is_digit (ds1 @ CHR ''d'' # ds2) = ds1" "dropWhile is_digit (ds1 @ CHR ''d'' # ds2) = CHR ''d'' # ds2"
    using span_digits [OF assms(1), of "CHR ''d'' # ds2"] nd by simp_all
  have b: "takeWhile is_digit ds2 = ds2" "dropWhile is_digit ds2 = []"
    using span_digits [OF assms(3), of "[]"] by simp_all
  show ?thesis
    unfolding dice_pattern_match_def a Let_def using assms(2,4) by (simp add: b)
qed

lemma parse_expression_count_sides:
  assumes "0 \<le> count" "0 \<le> sides"
  shows "parse_expression (str_int count @ CHR ''d'' # str_int sides) = Inr (count, sides, CHR ''+'', 0)"
proof -
  let ?a = "str_int count" and ?b = "str_int sides"
  have da: "\<forall>c\<in>set ?a. is_digit c" and db: "\<forall>c\<in>set ?b. is_digit c"
    using assms by (auto simp: str_int_def digits_of_digits)
  have ne: "?a \<noteq> []" "?b \<noteq> []" using assms by (simp_all add: str_int_def digits_of_nonempty)
  have "remove_spaces (lower (?a @ CHR ''d'' # ?b)) = ?a @ CHR ''d'' # ?b"
    by (simp add: normalise_append normalise_Cons normalise_digits [OF da] normalise_digits [OF db])
       (simp add: lower_char_def)
  then show ?thesis
    unfolding parse_expression_def
    by (simp add: dice_pattern_match_plain [OF da ne(1) db ne(2)] int_of_digits_str_int assms)
qed

text \<open>
  C1. For every count in [1, 100] and every number of sides in [1, 1000], \<^verbatim>\<open>roll\<close> of the
  expression made of the count, the letter d and the sides returns a \<^verbatim>\<open>DiceRoll\<close> whose rolls
  are exactly count values, each between 1 and sides, and whose total is the sum of the
  rolls (there is no suffix, so the modifier is 0).
\<close>

theorem roll_count_sides:
  assumes "1 \<le> count" "count \<le> 100" "1 \<le> sides" "sides \<le> 1000"
  shows "\<exists>r g'. roll (str_int count @ ''d'' @ str_int sides) g = (Inr r, g')
           \<and> int (length (rolls r)) = count
           \<and> (\<forall>x\<in>set (rolls r). 1 \<le> x \<and> x \<le> sides)
           \<and> total r = sum_list (rolls r)"
proof -
  obtain rs g' where rs: "roll_simple count sides g = (rs, g')" by (cases "roll_simple count sides g")
  have len: "int (length rs) = count" using roll_simple_length [of count sides g] rs assms by simp
  have rng: "\<forall>x\<in>set rs. 1 \<le> x \<and> x \<le> sides"
    using roll_simple_range [OF assms(3), of _ count g] rs by simp
  have "roll (str_int count @ ''d'' @ str_int sides) g =
          (Inr \<lparr>expression = str_int count @ ''d'' @ str_int sides, rolls = rs,
                total = sum_list rs + 0, breakdown = str_int (sum_list rs)\<rparr>, g')"
    using assms rs by (simp add: roll_def Let_def parse_expression_count_sides [of count sides])
  with len rng show ?thesis by simp
qed


theorem roll_count_sides_witness:
  "(1::int) \<le> 3 \<and> (3::int) \<le> 100 \<and> (1::int) \<le> 6 \<and> (6::int) \<le> 1000 \<and>
   (\<exists>r g'. roll ''3d6'' \<lparr>tape = (\<lambda>i. i), pos = 0\<rparr> = (Inr r, g')
           \<and> int (length (rolls r)) = 3
           \<and> (\<forall>x\<in>set (rolls r). 1 \<le> x \<and> x \<le> 6)
           \<and> total r = sum_list (rolls r))"
  using roll_count_sides [of 3 6 "\<lparr>tape = (\<lambda>i. i), pos = 0\<rparr>"]
  by (simp add: str_int_def digits_of.simps digit_char_def)

section \<open>When roll raises\<close>

lemma dice_pattern_match_decomp:
  assumes "dice_pattern_match s = Some (g1, g2, m)"
  shows "\<exists>rest. s = g1 @ CHR ''d'' # g2 @ rest \<and> g1 \<noteq> [] \<and> g2 \<noteq> []
           \<and> (\<forall>c\<in>set g1. is_digit c) \<and> (\<forall>c\<in>set g2. is_digit c)
           \<and> (rest = [] \<or> \<not> is_digit (hd rest))"
proof -
  from assms obtain r2 where g1: "g1 = takeWhile is_digit s" "g1 \<noteq> []"
    and r1: "dropWhile is_digit s = CHR ''d'' # r2"
    and g2: "g2 = takeWhile is_digit r2" "g2 \<noteq> []"
    by (auto simp: dice_pattern_match_def Let_def split: list.splits if_splits)
  have "s = g1 @ CHR ''d'' # g2 @ dropWhile is_digit r2"
    using takeWhile_dropWhile_id [of is_digit s] takeWhile_dropWhile_id [of is_digit r2] g1(1) g2(1) r1
    by simp
  moreover have "\<forall>c\<in>set g1. is_digit c" "\<forall>c\<in>set g2. is_digit c"
    using g1(1) g2(1) by (auto dest: set_takeWhileD)
  ultimately show ?thesis
    using g1(2) g2(2) dropWhile_digit_head [of r2] by blast
qed

lemma dice_pattern_match_complete:
  assumes "s = ds1 @ CHR ''d'' # ds2 @ rest" "ds1 \<noteq> []" "ds2 \<noteq> []"
    "\<forall>c\<in>set ds1. is_digit c" "\<forall>c\<in>set ds2. is_digit c" "rest = [] \<or> \<not> is_digit (hd rest)"
  shows "\<exists>m. dice_pattern_match s = Some (ds1, ds2, m)"
proof -
  have nd: "\<not> is_digit CHR ''d''" by (simp add: is_digit_def)
  have a: "takeWhile is_digit s = ds1" "dropWhile is_digit s = CHR ''d'' # ds2 @ rest"
    using span_digits [OF assms(4), of "CHR ''d'' # ds2 @ rest"] nd assms(1) by simp_all
  have b: "takeWhile is_digit (ds2 @ rest) = ds2" "dropWhile is_digit (ds2 @ rest) = rest"
    using span_digits [OF assms(5,6)] by simp_all
  have "dice_pattern_match s =
          (case rest of
             [] \<Rightarrow> Some (ds1, ds2, None)
           | c' # r4 \<Rightarrow>
               if is_sign c' \<and> takeWhile is_digit r4 \<noteq> []
               then Some (ds1, ds2, Some (c', takeWhile is_digit r4))
               else Some (ds1, ds2, None))"
    unfolding dice_pattern_match_def a Let_def list.case char.inject b using assms(2,3) by simp
  then show ?thesis by (auto split: list.splits)
qed

lemma roll_Inl:
  "parse_expression expr = Inl e \<Longrightarrow> roll expr g = (Inl e, g)"
  by (simp add: roll_def)

lemma parse_expression_Inl:
  "parse_expression expr = Inl e \<Longrightarrow> \<exists>msg. e = ValueError msg"
  by (auto simp: parse_expression_def Let_def split: option.splits prod.splits)

lemma roll_out_of_range:
  "parse_expression expr = Inr (n, s, operator, m) \<Longrightarrow> \<not> (1 \<le> n \<and> n \<le> 100 \<and> 1 \<le> s \<and> s \<le> 1000) \<Longrightarrow>
     \<exists>msg. roll expr g = (Inl (ValueError msg), g)"
  by (auto simp: roll_def)

lemma roll_in_range:
  "parse_expression expr = Inr (n, s, operator, m) \<Longrightarrow> 1 \<le> n \<and> n \<le> 100 \<and> 1 \<le> s \<and> s \<le> 1000 \<Longrightarrow>
     roll expr g =
       (Inr \<lparr>expression = expr, rolls = fst (roll_simple n s g),
              total = (if operator = CHR ''+'' then sum_list (fst (roll_simple n s g)) + m
                       else sum_list (fst (roll_simple n s g)) - m),
              breakdown = (if m \<noteq> 0
                           then str_int (sum_list (fst (roll_simple n s g))) @
                                (if operator = CHR ''+'' then '' + '' else '' - '') @ str_int m
                           else str_int (sum_list (fst (roll_simple n s g))))\<rparr>,
        snd (roll_simple n s g))"
  by (simp add: roll_def Let_def case_prod_beta)

lemma parse_expression_Inr:
  "(\<exists>operator m. parse_expression expr = Inr (n, s, operator, m)) \<longleftrightarrow>
   (\<exists>g1 g2 mm. dice_pattern_match (remove_spaces (lower expr)) = Some (g1, g2, mm)
      \<and> n = int_of_digits g1 \<and> s = int_of_digits g2)"
  by (auto simp: parse_expression_def Let_def split: option.splits prod.splits)

lemma roll_returns_iff:
  "(\<exists>r g'. roll expr g = (Inr r, g')) \<longleftrightarrow>
   (\<exists>ds1 ds2 rest. remove_spaces (lower expr) = ds1 @ ''d'' @ ds2 @ rest
        \<and> ds1 \<noteq> [] \<and> ds2 \<noteq> [] \<and> (\<forall>c\<in>set ds1. is_digit c) \<and> (\<forall>c\<in>set ds2. is_digit c)
        \<and> (rest = [] \<or> \<not> is_digit (hd rest))
        \<and> 1 \<le> int_of_digits ds1 \<and> int_of_digits ds1 \<le> 100
        \<and> 1 \<le> int_of_digits ds2 \<and> int_of_digits ds2 \<le> 1000)"
  (is "?L \<longleftrightarrow> ?R")
proof
  assume ?L
  then obtain r g' where ok: "roll expr g = (Inr r, g')" by blast
  show ?R
  proof (cases "parse_expression expr")
    case (Inl e)
    with roll_Inl [OF Inl, of g] ok show ?thesis by simp
  next
    case (Inr p)
    obtain n s operator m where p: "p = (n, s, operator, m)" by (cases p)
    have rng: "1 \<le> n \<and> n \<le> 100 \<and> 1 \<le> s \<and> s \<le> 1000"
      using roll_out_of_range [of expr n s operator m g] Inr p ok by auto
    from Inr p parse_expression_Inr [of expr n s]
    obtain g1 g2 mm where m: "dice_pattern_match (remove_spaces (lower expr)) = Some (g1, g2, mm)"
      and ns: "n = int_of_digits g1" "s = int_of_digits g2" by blast
    from dice_pattern_match_decomp [OF m] rng ns show ?thesis by auto
  qed
next
  assume ?R
  then obtain ds1 ds2 rest where d: "remove_spaces (lower expr) = ds1 @ CHR ''d'' # ds2 @ rest"
      "ds1 \<noteq> []" "ds2 \<noteq> []" "\<forall>c\<in>set ds1. is_digit c" "\<forall>c\<in>set ds2. is_digit c"
      "rest = [] \<or> \<not> is_digit (hd rest)"
    and rng: "1 \<le> int_of_digits ds1 \<and> int_of_digits ds1 \<le> 100 \<and> 1 \<le> int_of_digits ds2 \<and> int_of_digits ds2 \<le> 1000"
    by auto
  from dice_pattern_match_complete [OF d] obtain mm
    where "dice_pattern_match (remove_spaces (lower expr)) = Some (ds1, ds2, mm)" ..
  with parse_expression_Inr [of expr "int_of_digits ds1" "int_of_digits ds2"]
  obtain operator m where "parse_expression expr = Inr (int_of_digits ds1, int_of_digits ds2, operator, m)"
    by blast
  from roll_in_range [OF this rng] show ?L by blast
qed

lemma roll_dichotomy:
  "(\<exists>r g'. roll expr g = (Inr r, g')) \<or> (\<exists>msg. roll expr g = (Inl (ValueError msg), g))"
proof (cases "parse_expression expr")
  case (Inl e)
  with roll_Inl [OF Inl, of g] parse_expression_Inl [OF Inl] show ?thesis by auto
next
  case (Inr p)
  obtain n s operator m where p: "p = (n, s, operator, m)" by (cases p)
  show ?thesis
  proof (cases "1 \<le> n \<and> n \<le> 100 \<and> 1 \<le> s \<and> s \<le> 1000")
    case True
    from roll_in_range [OF Inr [unfolded p] True] show ?thesis by blast
  next
    case False
    from roll_out_of_range [OF Inr [unfolded p] False] show ?thesis by blast
  qed
qed

lemmas roll_eval = roll_def parse_expression_def dice_pattern_match_def remove_spaces_def lower_def
  lower_char_def is_digit_def is_sign_def int_of_digits_def digit_val_def Let_def

lemma roll_examples:
  "\<exists>msg. roll ''abc'' g = (Inl (ValueError msg), g)"
  "\<exists>msg. roll ''0d6'' g = (Inl (ValueError msg), g)"
  "\<exists>msg. roll ''2d0'' g = (Inl (ValueError msg), g)"
  "\<exists>msg. roll ''101d6'' g = (Inl (ValueError msg), g)"
  "\<exists>msg. roll ''2d1001'' g = (Inl (ValueError msg), g)"
  by (simp_all add: roll_eval)

text \<open>
  C3. \<^verbatim>\<open>roll\<close> raises (a \<^verbatim>\<open>ValueError\<close>, the code's InvalidExpression) exactly when the
  normalised input does not start with a count, the letter d and a number of sides (each a
  maximal run of digits) with the count in [1, 100] and the sides in [1, 1000]; whatever
  it raises is raised before any die is rolled, the generator being left as it was; and
  the five inputs abc, 0d6, 2d0, 101d6 and 2d1001 all raise.
\<close>

theorem roll_raises_exactly:
  "((\<exists>msg. roll expr g = (Inl (ValueError msg), g)) \<longleftrightarrow>
      \<not> (\<exists>ds1 ds2 rest. remove_spaces (lower expr) = ds1 @ ''d'' @ ds2 @ rest
            \<and> ds1 \<noteq> [] \<and> ds2 \<noteq> [] \<and> (\<forall>c\<in>set ds1. is_digit c) \<and> (\<forall>c\<in>set ds2. is_digit c)
            \<and> (rest = [] \<or> \<not> is_digit (hd rest))
            \<and> 1 \<le> int_of_digits ds1 \<and> int_of_digits ds1 \<le> 100
            \<and> 1 \<le> int_of_digits ds2 \<and> int_of_digits ds2 \<le> 1000))
   \<and> ((\<exists>r g'. roll expr g = (Inr r, g')) \<or> (\<exists>msg. roll expr g = (Inl (ValueError msg), g)))
   \<and> (\<forall>e\<in>{''abc'', ''0d6'', ''2d0'', ''101d6'', ''2d1001''}. \<exists>msg. roll e g = (Inl (ValueError msg), g))"
proof (intro conjI)
  have "(\<exists>msg. roll expr g = (Inl (ValueError msg), g)) \<longleftrightarrow> \<not> (\<exists>r g'. roll expr g = (Inr r, g'))"
    using roll_dichotomy [of expr g] by auto
  then show "(\<exists>msg. roll expr g = (Inl (ValueError msg), g)) \<longleftrightarrow>
      \<not> (\<exists>ds1 ds2 rest. remove_spaces (lower expr) = ds1 @ ''d'' @ ds2 @ rest
            \<and> ds1 \<noteq> [] \<and> ds2 \<noteq> [] \<and> (\<forall>c\<in>set ds1. is_digit c) \<and> (\<forall>c\<in>set ds2. is_digit c)
            \<and> (rest = [] \<or> \<not> is_digit (hd rest))
            \<and> 1 \<le> int_of_digits ds1 \<and> int_of_digits ds1 \<le> 100
            \<and> 1 \<le> int_of_digits ds2 \<and> int_of_digits ds2 \<le> 1000)"
    by (simp only: roll_returns_iff)
  show "(\<exists>r g'. roll expr g = (Inr r, g')) \<or> (\<exists>msg. roll expr g = (Inl (ValueError msg), g))"
    by (rule roll_dichotomy)
  show "\<forall>e\<in>{''abc'', ''0d6'', ''2d0'', ''101d6'', ''2d1001''}. \<exists>msg. roll e g = (Inl (ValueError msg), g)"
    using roll_examples [of g] by blast
qed

theorem roll_raises_exactly_witness:
  "(\<exists>msg. roll ''101d6'' \<lparr>tape = (\<lambda>i. i), pos = 0\<rparr> = (Inl (ValueError msg), \<lparr>tape = (\<lambda>i. i), pos = 0\<rparr>))
   \<and> \<not> (\<exists>msg. roll ''2d6'' \<lparr>tape = (\<lambda>i. i), pos = 0\<rparr> = (Inl (ValueError msg), \<lparr>tape = (\<lambda>i. i), pos = 0\<rparr>))"
proof
  let ?g = "\<lparr>tape = (\<lambda>i. i), pos = 0\<rparr>"
  note inst = roll_raises_exactly [of "''2d6''" ?g]
  have "''101d6'' \<in> {''abc'', ''0d6'', ''2d0'', ''101d6'', ''2d1001''}" by simp
  with inst [THEN conjunct2, THEN conjunct2]
  show "\<exists>msg. roll ''101d6'' ?g = (Inl (ValueError msg), ?g)" by (rule bspec)
  have "\<exists>ds1 ds2 rest. remove_spaces (lower ''2d6'') = ds1 @ ''d'' @ ds2 @ rest
            \<and> ds1 \<noteq> [] \<and> ds2 \<noteq> [] \<and> (\<forall>c\<in>set ds1. is_digit c) \<and> (\<forall>c\<in>set ds2. is_digit c)
            \<and> (rest = [] \<or> \<not> is_digit (hd rest))
            \<and> 1 \<le> int_of_digits ds1 \<and> int_of_digits ds1 \<le> 100
            \<and> 1 \<le> int_of_digits ds2 \<and> int_of_digits ds2 \<le> 1000"
    by (rule exI [of _ "''2''"], rule exI [of _ "''6''"], rule exI [of _ "[]"]) (simp add: roll_eval)
  then show "\<not> (\<exists>msg. roll ''2d6'' ?g = (Inl (ValueError msg), ?g))"
    by (simp only: inst [THEN conjunct1] not_not)
qed

section \<open>The exploding loop on a one-sided die\<close>

lemma randint_one: "fst (randint 1 1 g) = 1"
  by (simp add: randint_def)

lemma explode_while_Some:
  assumes "explode_while sides r temp_rolls g = Some y"
  shows "\<not> (sides = 1 \<and> r = 1)"
proof (rule explode_while.raw_induct [where P = "\<lambda>sides r temp_rolls g y. \<not> (sides = 1 \<and> r = 1)", OF _ assms])
  fix f :: "int \<Rightarrow> int \<Rightarrow> int list \<Rightarrow> rng \<Rightarrow> (int list \<times> rng) option"
    and s r' :: int and t :: "int list" and g' :: rng and y' :: "int list \<times> rng"
  assume IH: "\<And>s r t g y. f s r t g = Some y \<Longrightarrow> \<not> (s = 1 \<and> r = 1)"
    and body: "(if r' = s then let d = randint 1 s g' in f s (fst d) (t @ [fst d]) (snd d)
                else Some (t, g')) = Some y'"
  show "\<not> (s = 1 \<and> r' = 1)"
  proof
    assume one: "s = 1 \<and> r' = 1"
    with body have "f 1 (fst (randint 1 1 g')) (t @ [fst (randint 1 1 g')]) (snd (randint 1 1 g')) = Some y'"
      by (simp add: Let_def)
    from IH [OF this] show False by (simp add: randint_one)
  qed
qed

lemma explode_while_one: "explode_while 1 1 temp_rolls g = None"
  using explode_while_Some [of 1 1 temp_rolls g] by (cases "explode_while 1 1 temp_rolls g") auto

lemma explode_for_one: "explode_for (Suc n) 1 temp_rolls g = None"
  by (simp add: Let_def randint_one explode_while_one)

lemmas adv_eval = adv_dice_pattern_match_def remove_spaces_def lower_def
  lower_char_def is_digit_def is_sign_def is_opchar_def int_of_digits_def digit_val_def Let_def
  parse_options_def apply_operator_def initial_options_def at_dollar_def

lemma roll_with_options_exploding_one:
  "\<not> advantage opts \<Longrightarrow> \<not> disadvantage opts \<Longrightarrow> exploding opts \<Longrightarrow> 0 < num_dice \<Longrightarrow>
     roll_with_options expr num_dice 1 opts modifier g = None"
proof -
  assume a: "\<not> advantage opts" "\<not> disadvantage opts" "exploding opts" "0 < num_dice"
  then obtain n where "nat num_dice = Suc n" by (cases "nat num_dice") auto
  with a show ?thesis
    by (simp add: roll_with_options_def first_rolls_def Let_def randint_one explode_while_one)
qed

lemma roll_advanced_1d1: "roll_advanced ''1d1!'' g = None"
proof -
  have m: "adv_dice_pattern_match (remove_spaces (lower ''1d1!'')) = Some (Some ''1'', ''1'', ''!'')"
    by (simp add: adv_eval)
  have p: "parse_options 1 ''!'' = (initial_options\<lparr>exploding := True\<rparr>, 0)"
    by (simp add: adv_eval)
  show ?thesis
    unfolding roll_advanced_def m
    by (simp add: p int_of_digits_def digit_val_def roll_with_options_exploding_one initial_options_def)
qed

text \<open>
  C2. The claim is that \<^verbatim>\<open>roll_advanced("1d1!")\<close> terminates because the exploding loop
  respects a cap on the rerolls of a die. The loop of the source has no cap: every roll of a
  one-sided die is its maximum, so on this input the call never returns, whatever the
  generator.
\<close>

theorem roll_advanced_1d1_exploding_never_returns:
  "roll_advanced ''1d1!'' g = None"
  by (rule roll_advanced_1d1)


section \<open>roll_with_context\<close>

lemma roll_1d20: "\<exists>r g'. roll ''1d20'' g = (Inr r, g')"
  by (simp add: roll_eval case_prod_beta)

lemma fallback_returns: "\<exists>r g'. fallback expr g = (Inr r, g')"
proof (cases "roll expr g")
  case (Pair res g1)
  show ?thesis
  proof (cases res)
    case (Inl e)
    with Pair roll_1d20 [of g1] show ?thesis by (simp add: fallback_def)
  next
    case (Inr r)
    with Pair show ?thesis by (simp add: fallback_def)
  qed
qed

lemma roll_check_returns: "\<exists>r g'. roll_check expr label name bonus g = (Inr r, g')"
proof (cases bonus)
  case (Inl e)
  with fallback_returns [of expr g] show ?thesis by (simp add: roll_check_def)
next
  case (Inr modifier)
  let ?e = "''1d20'' @ (if modifier \<ge> 0 then ''+'' else []) @ str_int modifier"
  obtain res g1 where r: "roll ?e g = (res, g1)" by (cases "roll ?e g")
  show ?thesis
  proof (cases res)
    case (Inl e)
    with r Inr fallback_returns [of expr g1] show ?thesis by (simp add: roll_check_def Let_def)
  next
    case (Inr result)
    with r \<open>bonus = Inr modifier\<close> show ?thesis by (simp add: roll_check_def Let_def)
  qed
qed

lemma standard_roll_returns:
  "standard_roll expr g = None \<or> (\<exists>r g'. standard_roll expr g = Some (Inr r, g'))"
proof -
  define e where "e = (if CHR ''d'' \<notin> set expr
                  then (if signed_int_match expr
                        then (let m = int_of_signed expr
                              in ''1d20'' @ (if m \<ge> 0 then ''+'' else []) @ str_int m)
                        else ''1d20'')
                  else expr)"
  have sr: "standard_roll expr g =
      (case roll_advanced e g of
           None \<Rightarrow> None
         | Some (Inr r, g1) \<Rightarrow> Some (Inr r, g1)
         | Some (Inl (ValueError msg), g1) \<Rightarrow>
             (case roll e g1 of
                (Inr r, g2) \<Rightarrow> Some (Inr r, g2)
              | (Inl e', g2) \<Rightarrow> Some (fallback e g2))
         | Some (Inl (OtherException msg), g1) \<Rightarrow> Some (fallback e g1))"
    unfolding standard_roll_def e_def Let_def ..
  show ?thesis
  proof (cases "roll_advanced e g")
    case None
    with sr show ?thesis by simp
  next
    case (Some p)
    obtain res g1 where p: "p = (res, g1)" by (cases p)
    show ?thesis
    proof (cases res)
      case (Inr r)
      with sr Some p show ?thesis by simp
    next
      case (Inl err)
      show ?thesis
      proof (cases err)
        case (OtherException msg)
        with sr Some p Inl fallback_returns [of e g1] show ?thesis by auto
      next
        case (ValueError msg)
        obtain res2 g2 where r2: "roll e g1 = (res2, g2)" by (cases "roll e g1")
        show ?thesis
        proof (cases res2)
          case (Inl e')
          with sr Some p \<open>res = Inl err\<close> ValueError r2 fallback_returns [of e g2] show ?thesis by auto
        next
          case (Inr r)
          with sr Some p \<open>res = Inl err\<close> ValueError r2 show ?thesis by auto
        qed
      qed
    qed
  qed
qed

lemma roll_with_context_never_raises:
  "roll_with_context expr ch g = None \<or> (\<exists>r g'. roll_with_context expr ch g = Some (Inr r, g'))"
  using standard_roll_returns [of expr g] roll_check_returns
  by (auto simp: roll_with_context_def Let_def split: option.splits)

text \<open>
  C4. The claim is that \<^verbatim>\<open>roll_with_context\<close> returns a \<^verbatim>\<open>DiceRoll\<close> for every input. No
  exception escapes it (the lemma above), but it hands the expression to \<^verbatim>\<open>roll_advanced\<close>
  first, and on the exploding one-sided die that call never returns, so neither does
  \<^verbatim>\<open>roll_with_context\<close>.
\<close>

theorem roll_with_context_1d1_exploding_never_returns:
  "roll_with_context ''1d1!'' None g = None"
  by (simp add: roll_with_context_def standard_roll_def roll_advanced_1d1)

section \<open>Keep highest three of 4d6\<close>

lemma roll_with_options_plain:
  "\<not> advantage opts \<Longrightarrow> \<not> disadvantage opts \<Longrightarrow> \<not> exploding opts \<Longrightarrow>
   reroll_threshold opts = 0 \<Longrightarrow> keep_lowest opts = 0 \<Longrightarrow>
   0 < keep_highest opts \<Longrightarrow> keep_highest opts < int (length (fst (roll_simple num_dice sides g))) \<Longrightarrow>
   roll_with_options expr num_dice sides opts modifier g =
     Some (finish expr (take (nat (keep_highest opts)) (rev (sort (fst (roll_simple num_dice sides g)))))
             (''Rolls: '' @ str_list (fst (roll_simple num_dice sides g)) @
              '' (Keep highest '' @ str_int (keep_highest opts) @ '')'') modifier,
           snd (roll_simple num_dice sides g))"
  by (simp add: roll_with_options_def first_rolls_def handle_rerolls_def handle_keep_highest_def
        handle_keep_lowest_def Let_def case_prod_beta)

text \<open>
  C6. \<^verbatim>\<open>roll_advanced("4d6k3")\<close> always returns: four dice are rolled, the result holds exactly
  three rolls, they are the four rolls sorted in descending order and cut to the first
  three, and the total is their sum.
\<close>

theorem roll_advanced_4d6k3:
  "\<exists>r. roll_advanced ''4d6k3'' g = Some (Inr r, snd (roll_simple 4 6 g))
      \<and> length (fst (roll_simple 4 6 g)) = 4
      \<and> rolls r = take 3 (rev (sort (fst (roll_simple 4 6 g))))
      \<and> length (rolls r) = 3
      \<and> total r = sum_list (rolls r)"
proof -
  have m: "adv_dice_pattern_match (remove_spaces (lower ''4d6k3'')) = Some (Some ''4'', ''6'', ''k3'')"
    by (simp add: adv_eval)
  have p: "parse_options 4 ''k3'' = (initial_options\<lparr>keep_highest := 3\<rparr>, 0)"
    by (simp add: adv_eval)
  have len: "length (fst (roll_simple 4 6 g)) = 4"
    using roll_simple_length [of 4 6 g] by simp
  have "roll_advanced ''4d6k3'' g =
          Some (Inr (finish ''4d6k3'' (take 3 (rev (sort (fst (roll_simple 4 6 g)))))
                      (''Rolls: '' @ str_list (fst (roll_simple 4 6 g)) @ '' (Keep highest 3)'') 0),
                snd (roll_simple 4 6 g))"
    unfolding roll_advanced_def m
    by (simp add: p int_of_digits_def digit_val_def roll_with_options_plain initial_options_def len
          str_int_def digits_of.simps digit_char_def)
  with len show ?thesis by (simp add: finish_def)
qed

section \<open>parse_dice_in_text on a candidate that does not parse\<close>

lemmas rx_eval = standard_rx_def advanced_rx_def Plus_def Chr_def word_boundary_def is_word_def
  is_digit_def is_sign_def is_opchar_def Let_def

lemma find_standard_0d6: "finditer_from ''0d6'' standard_rx 0 = [''0d6'']"
  by (simp add: rx_eval finditer_from.simps)

lemma find_advanced_0d6: "finditer_from ''0d6'' advanced_rx 0 = [''0d6'']"
  by (simp add: rx_eval finditer_from.simps)

lemma roll_1d20_value:
  "roll ''1d20'' g = (Inr \<lparr>expression = ''1d20'', rolls = fst (roll_simple 1 20 g),
       total = sum_list (fst (roll_simple 1 20 g)),
       breakdown = str_int (sum_list (fst (roll_simple 1 20 g)))\<rparr>, snd (roll_simple 1 20 g))"
  by (simp add: roll_eval case_prod_beta)

lemma roll_with_context_0d6:
  "roll_with_context ''0d6'' None g = Some (roll ''1d20'' g)"
proof -
  have a: "\<exists>msg. roll_advanced ''0d6'' g = Some (Inl (ValueError msg), g)"
    by (simp add: roll_advanced_def adv_eval)
  have r: "\<exists>msg. roll ''0d6'' g = (Inl (ValueError msg), g)"
    by (simp add: roll_eval)
  from a r show ?thesis
    by (auto simp: roll_with_context_def standard_roll_def fallback_def roll_1d20_value)
qed

text \<open>
  C8. The claim is that a candidate that does not parse is skipped and contributes no
  \<^verbatim>\<open>DiceRoll\<close>. The text 0d6 is found by both patterns and kept once; neither \<^verbatim>\<open>roll_advanced\<close>
  nor \<^verbatim>\<open>roll\<close> accepts it (the count is 0), but \<^verbatim>\<open>roll_with_context\<close> then rolls 1d20 instead
  of raising, so the handler that skips invalid expressions never runs and the result
  holds a roll of 1d20.
\<close>

theorem parse_dice_in_text_0d6:
  "parse_dice_in_text ''0d6'' g =
     Some ([\<lparr>expression = ''1d20'', rolls = fst (roll_simple 1 20 g),
              total = sum_list (fst (roll_simple 1 20 g)),
              breakdown = str_int (sum_list (fst (roll_simple 1 20 g)))\<rparr>],
           snd (roll_simple 1 20 g))"
  by (simp add: parse_dice_in_text_def find_standard_0d6 find_advanced_0d6 roll_with_context_0d6
        roll_1d20_value)

section \<open>Every roll is a face of the die\<close>

lemma in_faces_simps [simp]:
  "in_faces sides []"
  "in_faces sides (x # xs) = (1 \<le> x \<and> x \<le> sides \<and> in_faces sides xs)"
  "in_faces sides (xs @ ys) = (in_faces sides xs \<and> in_faces sides ys)"
  by (auto simp: in_faces_def)

lemma in_faces_subset: "set ys \<subseteq> set xs \<Longrightarrow> in_faces sides xs \<Longrightarrow> in_faces sides ys"
  by (auto simp: in_faces_def)

lemma roll_simple_in_faces: "1 \<le> sides \<Longrightarrow> in_faces sides (fst (roll_simple n sides g))"
  unfolding in_faces_def using roll_simple_range [of sides _ n g] by blast

lemma explode_while_in_faces:
  assumes "explode_while sides r temp_rolls g = Some y"
  shows "1 \<le> sides \<longrightarrow> in_faces sides temp_rolls \<longrightarrow> in_faces sides (fst y)"
proof (rule explode_while.raw_induct
    [where P = "\<lambda>sides r temp_rolls g y. 1 \<le> sides \<longrightarrow> in_faces sides temp_rolls \<longrightarrow> in_faces sides (fst y)",
      OF _ assms])
  fix f :: "int \<Rightarrow> int \<Rightarrow> int list \<Rightarrow> rng \<Rightarrow> (int list \<times> rng) option"
    and s r' :: int and t :: "int list" and g' :: rng and y' :: "int list \<times> rng"
  assume IH: "\<And>s r t g y. f s r t g = Some y \<Longrightarrow> 1 \<le> s \<longrightarrow> in_faces s t \<longrightarrow> in_faces s (fst y)"
    and body: "(if r' = s then let d = randint 1 s g' in f s (fst d) (t @ [fst d]) (snd d)
                else Some (t, g')) = Some y'"
  show "1 \<le> s \<longrightarrow> in_faces s t \<longrightarrow> in_faces s (fst y')"
  proof (intro impI)
    assume s: "1 \<le> s" and t: "in_faces s t"
    show "in_faces s (fst y')"
    proof (cases "r' = s")
      case True
      with body have "f s (fst (randint 1 s g')) (t @ [fst (randint 1 s g')]) (snd (randint 1 s g')) = Some y'"
        by (simp add: Let_def)
      from IH [OF this] s t randint_range [OF s, of g'] show ?thesis by simp
    next
      case False
      with body t show ?thesis by auto
    qed
  qed
qed

lemma explode_for_in_faces:
  "explode_for n sides temp_rolls g = Some y \<Longrightarrow> 1 \<le> sides \<Longrightarrow> in_faces sides temp_rolls \<Longrightarrow>
     in_faces sides (fst y)"
proof (induction n arbitrary: temp_rolls g)
  case 0
  then show ?case by auto
next
  case (Suc n)
  let ?d = "randint 1 sides g"
  from Suc.prems(1) obtain t' g' where
    w: "explode_while sides (fst ?d) (temp_rolls @ [fst ?d]) (snd ?d) = Some (t', g')"
    and f: "explode_for n sides t' g' = Some y"
    by (auto simp: Let_def split: option.splits)
  have "in_faces sides (temp_rolls @ [fst ?d])"
    using Suc.prems(2,3) randint_range [OF Suc.prems(2), of g] by simp
  with explode_while_in_faces [OF w] Suc.prems(2) have "in_faces sides t'" by simp
  from Suc.IH [OF f Suc.prems(2) this] show ?case .
qed

lemma reroll_loop_in_faces:
  "1 \<le> sides \<Longrightarrow> in_faces sides rs \<Longrightarrow> in_faces sides (fst (reroll_loop threshold sides rs g))"
proof (induction rs arbitrary: g)
  case Nil
  then show ?case by simp
next
  case (Cons r rs)
  from Cons.prems have rs: "in_faces sides rs" and r: "1 \<le> r \<and> r \<le> sides" by simp_all
  show ?case
    using Cons.IH [OF Cons.prems(1) rs] r randint_range [OF Cons.prems(1), of g]
    by (simp add: Let_def case_prod_beta)
qed

lemma reroll_loop_length: "length (fst (reroll_loop threshold sides rs g)) = length rs"
  by (induction rs arbitrary: g) (simp_all add: Let_def case_prod_beta)


lemma advantage_rolls_in_faces:
  "1 \<le> sides \<Longrightarrow> in_faces sides (fst (advantage_rolls adv num_dice sides g))"
  using roll_simple_in_faces [of sides num_dice g]
    roll_simple_in_faces [of sides num_dice "snd (roll_simple num_dice sides g)"]
  by (simp add: advantage_rolls_def Let_def case_prod_beta)

lemma first_rolls_in_faces:
  "first_rolls expl num_dice sides g = Some (rs, bd, g1) \<Longrightarrow> 1 \<le> sides \<Longrightarrow> in_faces sides rs"
proof (cases expl)
  case True
  assume a: "first_rolls expl num_dice sides g = Some (rs, bd, g1)" and s: "1 \<le> sides"
  with True have "explode_for (nat num_dice) sides [] g = Some (rs, g1)"
    by (auto simp: first_rolls_def split: option.splits)
  from explode_for_in_faces [OF this s] show ?thesis by simp
next
  case False
  assume a: "first_rolls expl num_dice sides g = Some (rs, bd, g1)" and s: "1 \<le> sides"
  with False have "rs = fst (roll_simple num_dice sides g)"
    by (auto simp: first_rolls_def Let_def case_prod_beta)
  with roll_simple_in_faces [OF s] show ?thesis by simp
qed

lemma handle_rerolls_in_faces:
  "1 \<le> sides \<Longrightarrow> in_faces sides rs \<Longrightarrow> in_faces sides (fst (handle_rerolls threshold sides (rs, bd, g)))"
  by (simp add: handle_rerolls_def Let_def case_prod_beta reroll_loop_in_faces)

lemma handle_keep_highest_in_faces:
  "in_faces sides rs \<Longrightarrow> in_faces sides (fst (handle_keep_highest k (rs, bd)))"
proof -
  assume a: "in_faces sides rs"
  have "set (take (nat k) (rev (sort rs))) \<subseteq> set rs"
    using set_take_subset [of "nat k" "rev (sort rs)"] by simp
  from in_faces_subset [OF this a] a show ?thesis by (simp add: handle_keep_highest_def)
qed

lemma handle_keep_lowest_in_faces:
  "in_faces sides rs \<Longrightarrow> in_faces sides (fst (handle_keep_lowest k (rs, bd)))"
proof -
  assume a: "in_faces sides rs"
  have "set (take (nat k) (sort rs)) \<subseteq> set rs"
    using set_take_subset [of "nat k" "sort rs"] by simp
  from in_faces_subset [OF this a] a show ?thesis by (simp add: handle_keep_lowest_def)
qed

lemma roll_with_options_in_faces:
  assumes "roll_with_options expr num_dice sides opts modifier g = Some (r, g')" and s: "1 \<le> sides"
  shows "in_faces sides (rolls r)"
proof (cases "advantage opts \<or> disadvantage opts")
  case True
  with assms(1) have "rolls r = fst (advantage_rolls (advantage opts) num_dice sides g)"
    by (auto simp: roll_with_options_def Let_def case_prod_beta finish_def)
  with advantage_rolls_in_faces [OF s] show ?thesis by simp
next
  case False
  with assms(1) obtain rs bd g1 where f: "first_rolls (exploding opts) num_dice sides g = Some (rs, bd, g1)"
    by (auto simp: roll_with_options_def split: option.splits)
  obtain rs1 bd1 g2 where h1: "handle_rerolls (reroll_threshold opts) sides (rs, bd, g1) = (rs1, bd1, g2)"
    by (cases "handle_rerolls (reroll_threshold opts) sides (rs, bd, g1)")
  obtain rs2 bd2 where h2: "handle_keep_highest (keep_highest opts) (rs1, bd1) = (rs2, bd2)"
    by (cases "handle_keep_highest (keep_highest opts) (rs1, bd1)")
  obtain rs3 bd3 where h3: "handle_keep_lowest (keep_lowest opts) (rs2, bd2) = (rs3, bd3)"
    by (cases "handle_keep_lowest (keep_lowest opts) (rs2, bd2)")
  from assms(1) False f h1 h2 h3 have r: "rolls r = rs3"
    by (auto simp: roll_with_options_def finish_def)
  have "in_faces sides rs" by (rule first_rolls_in_faces [OF f s])
  from handle_rerolls_in_faces [OF s this, of "reroll_threshold opts" bd g1] h1
  have "in_faces sides rs1" by simp
  from handle_keep_highest_in_faces [OF this, of "keep_highest opts" bd1] h2
  have "in_faces sides rs2" by simp
  from handle_keep_lowest_in_faces [OF this, of "keep_lowest opts" bd2] h3
  have "in_faces sides rs3" by simp
  with r show ?thesis by simp
qed

lemma roll_advanced_Inr:
  assumes "roll_advanced expr g = Some (Inr r, g')"
    and "adv_dice_pattern_match (remove_spaces (lower expr)) = Some (g1, g2, optstr)"
  shows "1 \<le> int_of_digits g2 \<and> int_of_digits g2 \<le> 1000
         \<and> 1 \<le> (case g1 of Some ds \<Rightarrow> int_of_digits ds | None \<Rightarrow> 1)
         \<and> (case g1 of Some ds \<Rightarrow> int_of_digits ds | None \<Rightarrow> 1) \<le> 100
         \<and> roll_with_options expr (case g1 of Some ds \<Rightarrow> int_of_digits ds | None \<Rightarrow> 1)
               (int_of_digits g2)
               (fst (parse_options (case g1 of Some ds \<Rightarrow> int_of_digits ds | None \<Rightarrow> 1) optstr))
               (snd (parse_options (case g1 of Some ds \<Rightarrow> int_of_digits ds | None \<Rightarrow> 1) optstr)) g
             = Some (r, g')"
  using assms
  by (auto simp: roll_advanced_def Let_def case_prod_beta split: if_splits option.splits)

text \<open>
  C10. Whenever \<^verbatim>\<open>roll\<close> or \<^verbatim>\<open>roll_advanced\<close> returns a \<^verbatim>\<open>DiceRoll\<close>, every element of its rolls
  lies between 1 and the number of sides of the parsed expression: the draws, the values
  appended by exploding and the values put in by rerolls are all drawn from that range, and
  keeping the highest or lowest only removes elements.
\<close>

theorem rolls_within_faces:
  "(roll expr g = (Inr r, g') \<longrightarrow> parse_expression expr = Inr (num_dice, sides, operator, modifier)
      \<longrightarrow> (\<forall>x\<in>set (rolls r). 1 \<le> x \<and> x \<le> sides))
   \<and> (roll_advanced expr g = Some (Inr r', g'')
      \<longrightarrow> adv_dice_pattern_match (remove_spaces (lower expr)) = Some (g1, g2, optstr)
      \<longrightarrow> (\<forall>x\<in>set (rolls r'). 1 \<le> x \<and> x \<le> int_of_digits g2))"
proof (intro conjI impI)
  assume a: "roll expr g = (Inr r, g')" and p: "parse_expression expr = Inr (num_dice, sides, operator, modifier)"
  have rng: "1 \<le> num_dice \<and> num_dice \<le> 100 \<and> 1 \<le> sides \<and> sides \<le> 1000"
    using roll_out_of_range [OF p, of g] a by auto
  from roll_in_range [OF p rng, of g] a have "rolls r = fst (roll_simple num_dice sides g)" by auto
  with roll_simple_in_faces [of sides num_dice g] rng
  show "\<forall>x\<in>set (rolls r). 1 \<le> x \<and> x \<le> sides" by (simp add: in_faces_def)
next
  assume a: "roll_advanced expr g = Some (Inr r', g'')"
    and m: "adv_dice_pattern_match (remove_spaces (lower expr)) = Some (g1, g2, optstr)"
  note ra = roll_advanced_Inr [OF a m]
  from ra have s: "1 \<le> int_of_digits g2" by (rule conjunct1)
  from ra [THEN conjunct2, THEN conjunct2, THEN conjunct2, THEN conjunct2]
  have "in_faces (int_of_digits g2) (rolls r')"
    using s by (rule roll_with_options_in_faces)
  then show "\<forall>x\<in>set (rolls r'). 1 \<le> x \<and> x \<le> int_of_digits g2" by (simp add: in_faces_def)
qed

lemmas rng_eval = example_rng_def roll_simple_def randint_def eval_nat_numeral

lemma ex_roll: "roll ''2d6+3'' example_rng =
    (Inr \<lparr>expression = ''2d6+3'', rolls = [6, 1], total = 10, breakdown = ''7 + 3''\<rparr>,
     example_rng\<lparr>pos := 2\<rparr>)"
  by (simp add: roll_eval rng_eval str_int_def digits_of.simps digit_char_def)

lemma ex_parse: "parse_expression ''2d6+3'' = Inr (2, 6, CHR ''+'', 3)"
  by (simp add: roll_eval)

lemma ex_adv_match: "adv_dice_pattern_match (remove_spaces (lower ''2d6!'')) = Some (Some ''2'', ''6'', ''!'')"
  by (simp add: adv_eval)

lemma ex_roll_advanced: "roll_advanced ''2d6!'' example_rng =
    Some (Inr \<lparr>expression = ''2d6!'', rolls = [6, 1, 1], total = 8, breakdown = ''Exploding: [6, 1, 1]''\<rparr>,
     example_rng\<lparr>pos := 3\<rparr>)"
  unfolding roll_advanced_def ex_adv_match
  by (simp add: adv_eval rng_eval roll_with_options_def first_rolls_def handle_rerolls_def
        handle_keep_highest_def handle_keep_lowest_def finish_def explode_while.simps
        str_list_def str_int_def digits_of.simps digit_char_def)

theorem rolls_within_faces_witness:
  "roll ''2d6+3'' example_rng =
     (Inr \<lparr>expression = ''2d6+3'', rolls = [6, 1], total = 10, breakdown = ''7 + 3''\<rparr>,
      example_rng\<lparr>pos := 2\<rparr>)
   \<and> parse_expression ''2d6+3'' = Inr (2, 6, CHR ''+'', 3)
   \<and> in_faces 6 [6, 1]
   \<and> roll_advanced ''2d6!'' example_rng =
     Some (Inr \<lparr>expression = ''2d6!'', rolls = [6, 1, 1], total = 8, breakdown = ''Exploding: [6, 1, 1]''\<rparr>,
           example_rng\<lparr>pos := 3\<rparr>)
   \<and> adv_dice_pattern_match (remove_spaces (lower ''2d6!'')) = Some (Some ''2'', ''6'', ''!'')
   \<and> in_faces (int_of_digits ''6'') [6, 1, 1]"
proof -
  note a = rolls_within_faces [where expr = "''2d6+3''" and g = example_rng
      and r = "\<lparr>expression = ''2d6+3'', rolls = [6, 1], total = 10, breakdown = ''7 + 3''\<rparr>"
      and g' = "example_rng\<lparr>pos := 2\<rparr>" and num_dice = 2 and sides = 6
      and operator = "CHR ''+''" and modifier = 3, THEN conjunct1, rule_format, OF ex_roll ex_parse]
  note b = rolls_within_faces [where expr = "''2d6!''" and g = example_rng
      and r' = "\<lparr>expression = ''2d6!'', rolls = [6, 1, 1], total = 8, breakdown = ''Exploding: [6, 1, 1]''\<rparr>"
      and g'' = "example_rng\<lparr>pos := 3\<rparr>" and ?g1.0 = "Some ''2''" and ?g2.0 = "''6''"
      and optstr = "''!''", THEN conjunct2, rule_format, OF ex_roll_advanced ex_adv_match]
  from a b ex_roll ex_parse ex_adv_match ex_roll_advanced show ?thesis by (simp add: in_faces_def)
qed

section \<open>Advantage and disadvantage\<close>

lemma digit_not_opchar: "is_digit c \<Longrightarrow> \<not> is_opchar c"
  by (auto simp: is_digit_def is_opchar_def)

lemma digit_not_sign: "is_digit c \<Longrightarrow> \<not> is_sign c"
  by (auto simp: is_digit_def is_sign_def)

lemma sign_not_opchar: "is_sign c \<Longrightarrow> \<not> is_opchar c"
  by (auto simp: is_sign_def is_opchar_def)

lemma opchars_dropWhile:
  "{x \<in> set (dropWhile is_digit cs). is_opchar x} = {x \<in> set cs. is_opchar x}"
proof -
  have "set cs = set (takeWhile is_digit cs) \<union> set (dropWhile is_digit cs)"
    by (metis set_append takeWhile_dropWhile_id)
  moreover have "\<forall>x\<in>set (takeWhile is_digit cs). \<not> is_opchar x"
    by (auto dest: set_takeWhileD digit_not_opchar)
  ultimately show ?thesis by auto
qed

lemma operators_finditer_ops:
  "fst ` set (operators_finditer s) = {x \<in> set s. is_opchar x}"
proof (induction s rule: operators_finditer.induct)
  case 1
  show ?case by simp
next
  case (2 c cs)
  show ?case
  proof (cases "is_opchar c")
    case True
    with "2.IH"(1) opchars_dropWhile [of cs] show ?thesis by auto
  next
    case False
    with "2.IH"(2) show ?thesis by auto
  qed
qed

lemma foldl_apply_operator_advantage:
  "advantage (foldl (apply_operator n) opts ts) = (advantage opts \<or> CHR ''a'' \<in> fst ` set ts)"
  by (induction ts arbitrary: opts) (auto simp: apply_operator_def Let_def)

lemma foldl_apply_operator_disadvantage:
  "disadvantage (foldl (apply_operator n) opts ts) = (disadvantage opts \<or> CHR ''d'' \<in> fst ` set ts)"
  by (induction ts arbitrary: opts) (auto simp: apply_operator_def Let_def)

lemma mod_search_Some:
  "mod_search s = Some (i, sg, ds) \<Longrightarrow>
     \<exists>r. s = take i s @ sg # ds @ r \<and> is_sign sg \<and> (\<forall>c\<in>set ds. is_digit c) \<and> ds \<noteq> [] \<and> at_dollar r"
proof (induction s arbitrary: i)
  case Nil
  then show ?case by simp
next
  case (Cons c cs)
  show ?case
  proof (cases "is_sign c \<and> takeWhile is_digit cs \<noteq> [] \<and> at_dollar (dropWhile is_digit cs)")
    case True
    with Cons.prems have e: "i = 0" "sg = c" "ds = takeWhile is_digit cs" by simp_all
    have "c # cs = take i (c # cs) @ sg # ds @ dropWhile is_digit cs" using e by simp
    moreover have "\<forall>x\<in>set ds. is_digit x" using e by (auto dest: set_takeWhileD)
    ultimately show ?thesis using True e by blast
  next
    case False
    with Cons.prems obtain j where j: "mod_search cs = Some (j, sg, ds)" "i = Suc j"
      by (auto split: option.splits)
    from Cons.IH [OF j(1)] obtain r where
      r: "cs = take j cs @ sg # ds @ r" "is_sign sg" "\<forall>c\<in>set ds. is_digit c" "ds \<noteq> []" "at_dollar r"
      by blast
    from r(1) j(2) have "c # cs = take i (c # cs) @ sg # ds @ r" by simp
    with r show ?thesis by blast
  qed
qed

lemma mod_search_opchars:
  assumes "mod_search s = Some (i, sg, ds)"
  shows "{x \<in> set (take i s). is_opchar x} = {x \<in> set s. is_opchar x}"
proof -
  from mod_search_Some [OF assms] obtain r where
    r: "s = take i s @ sg # ds @ r" "is_sign sg" "\<forall>c\<in>set ds. is_digit c" "at_dollar r" by blast
  have "\<forall>x\<in>set r. \<not> is_opchar x" using r(4) by (auto simp: at_dollar_def is_opchar_def)
  moreover have "\<forall>x\<in>set ds. \<not> is_opchar x" using r(3) digit_not_opchar by blast
  moreover have "\<not> is_opchar sg" using r(2) by (rule sign_not_opchar)
  moreover have "set s = set (take i s) \<union> {sg} \<union> set ds \<union> set r"
    by (subst r(1)) auto
  ultimately show ?thesis by auto
qed

lemma parse_options_ops:
  "fst ` set (operators_finditer (case mod_search s of Some (i, sg, ds) \<Rightarrow> take i s | None \<Rightarrow> s))
     = {x \<in> set s. is_opchar x}"
  by (auto simp: operators_finditer_ops mod_search_opchars split: option.splits)

lemma parse_options_flags:
  "advantage (fst (parse_options n s)) = (CHR ''a'' \<in> set s)"
  "disadvantage (fst (parse_options n s)) = (CHR ''d'' \<in> set s)"
proof -
  have a: "is_opchar CHR ''a''" "is_opchar CHR ''d''" by (simp_all add: is_opchar_def)
  show "advantage (fst (parse_options n s)) = (CHR ''a'' \<in> set s)"
    using a(1) parse_options_ops [of s]
    by (auto simp: parse_options_def foldl_apply_operator_advantage initial_options_def
        operators_finditer_ops mod_search_opchars split: option.splits)
  show "disadvantage (fst (parse_options n s)) = (CHR ''d'' \<in> set s)"
    using a(2) parse_options_ops [of s]
    by (auto simp: parse_options_def foldl_apply_operator_disadvantage initial_options_def
        operators_finditer_ops mod_search_opchars split: option.splits)
qed


lemma roll_advanced_valid:
  assumes "adv_dice_pattern_match (remove_spaces (lower expr)) = Some (c, s, optstr)"
    and "num_dice = (case c of Some ds \<Rightarrow> int_of_digits ds | None \<Rightarrow> 1)" and "sides = int_of_digits s"
    and "1 \<le> num_dice" "num_dice \<le> 100" "1 \<le> sides" "sides \<le> 1000"
  shows "roll_advanced expr g =
           (case roll_with_options expr num_dice sides (fst (parse_options num_dice optstr))
                   (snd (parse_options num_dice optstr)) g of
              None \<Rightarrow> None
            | Some (r, g') \<Rightarrow> Some (Inr r, g'))"
  using assms by (simp add: roll_advanced_def Let_def case_prod_beta)

lemma roll_with_options_advantage:
  assumes "advantage opts \<or> disadvantage opts"
    and "roll_simple num_dice sides g = (roll1, g1)" and "roll_simple num_dice sides g1 = (roll2, g2)"
  shows "roll_with_options expr num_dice sides opts modifier g =
           Some (finish expr
                   (if advantage opts
                    then (if sum_list roll1 > sum_list roll2 then roll1 else roll2)
                    else (if sum_list roll1 < sum_list roll2 then roll1 else roll2))
                   ((if advantage opts then ''Advantage: '' else ''Disadvantage: '') @
                    str_int (sum_list roll1) @ '' vs '' @ str_int (sum_list roll2))
                   modifier, g2)"
  using assms by (simp add: roll_with_options_def advantage_rolls_def)

text \<open>
  C5. When the options of an advanced expression contain the advantage flag a or the
  disadvantage flag d, the dice set (count, sides) is rolled twice, one roll after the
  other; the result holds the set with the higher sum under advantage and the one with the
  lower sum under disadvantage, untouched by exploding, rerolls and keeps (it has count
  elements); with both flags advantage decides; and the total is the sum of the selected
  set plus the modifier.
\<close>

theorem advantage_disadvantage:
  assumes "adv_dice_pattern_match (remove_spaces (lower expr)) = Some (c, s, optstr)"
    and "num_dice = (case c of Some ds \<Rightarrow> int_of_digits ds | None \<Rightarrow> 1)" and "sides = int_of_digits s"
    and "1 \<le> num_dice" "num_dice \<le> 100" "1 \<le> sides" "sides \<le> 1000"
    and "CHR ''a'' \<in> set optstr \<or> CHR ''d'' \<in> set optstr"
    and "roll_simple num_dice sides g = (roll1, g1)" and "roll_simple num_dice sides g1 = (roll2, g2)"
  shows "\<exists>r. roll_advanced expr g = Some (Inr r, g2)
           \<and> rolls r = (if CHR ''a'' \<in> set optstr
                        then (if sum_list roll1 > sum_list roll2 then roll1 else roll2)
                        else (if sum_list roll1 < sum_list roll2 then roll1 else roll2))
           \<and> sum_list (rolls r) = (if CHR ''a'' \<in> set optstr
                                   then max (sum_list roll1) (sum_list roll2)
                                   else min (sum_list roll1) (sum_list roll2))
           \<and> int (length (rolls r)) = num_dice
           \<and> total r = sum_list (rolls r) + snd (parse_options num_dice optstr)"
proof -
  let ?opts = "fst (parse_options num_dice optstr)" and ?m = "snd (parse_options num_dice optstr)"
  have fl: "advantage ?opts = (CHR ''a'' \<in> set optstr)" "disadvantage ?opts = (CHR ''d'' \<in> set optstr)"
    by (rule parse_options_flags)+
  with assms(8) have ad: "advantage ?opts \<or> disadvantage ?opts" by simp
  have len: "int (length roll1) = num_dice" "int (length roll2) = num_dice"
    using roll_simple_length [of num_dice sides g] roll_simple_length [of num_dice sides g1] assms(4,9,10)
    by simp_all
  have "roll_advanced expr g =
          Some (Inr (finish expr
                   (if advantage ?opts
                    then (if sum_list roll1 > sum_list roll2 then roll1 else roll2)
                    else (if sum_list roll1 < sum_list roll2 then roll1 else roll2))
                   ((if advantage ?opts then ''Advantage: '' else ''Disadvantage: '') @
                    str_int (sum_list roll1) @ '' vs '' @ str_int (sum_list roll2))
                   ?m), g2)"
    by (simp add: roll_advanced_valid [OF assms(1-7)] roll_with_options_advantage [OF ad assms(9,10)])
  then show ?thesis using len by (auto simp: finish_def fl)
qed

lemma ex_adv_match2:
  "adv_dice_pattern_match (remove_spaces (lower ''2d6ad+3'')) = Some (Some ''2'', ''6'', ''ad+3'')"
  by (simp add: adv_eval)

lemma ex_roll_simple:
  "roll_simple 2 6 example_rng = ([6, 1], example_rng\<lparr>pos := 2\<rparr>)"
  "roll_simple 2 6 (example_rng\<lparr>pos := 2\<rparr>) = ([1, 1], example_rng\<lparr>pos := 4\<rparr>)"
  by (simp_all add: rng_eval)

theorem advantage_disadvantage_witness:
  "\<exists>r. roll_advanced ''2d6ad+3'' example_rng = Some (Inr r, example_rng\<lparr>pos := 4\<rparr>)
       \<and> rolls r = [6, 1] \<and> sum_list (rolls r) = 7 \<and> int (length (rolls r)) = 2 \<and> total r = 10"
proof -
  have p: "snd (parse_options 2 ''ad+3'') = 3" by (simp add: adv_eval)
  have v: "(2::int) = (case Some ''2'' of Some ds \<Rightarrow> int_of_digits ds | None \<Rightarrow> 1)" "(6::int) = int_of_digits ''6''"
    by (simp_all add: int_of_digits_def digit_val_def)
  have f: "CHR ''a'' \<in> set ''ad+3'' \<or> CHR ''d'' \<in> set ''ad+3''" by simp
  from advantage_disadvantage [OF ex_adv_match2 v _ _ _ _ f ex_roll_simple]
  show ?thesis by (auto simp: p)
qed

section \<open>Matching a prefix of the input\<close>

lemma takeWhile_digit_append:
  "t = [] \<or> \<not> is_digit (hd t) \<Longrightarrow> takeWhile is_digit (a @ t) = takeWhile is_digit a"
proof (induction a)
  case Nil
  then show ?case by (cases t) auto
next
  case (Cons x a)
  then show ?case by simp
qed

lemma dropWhile_digit_append:
  "t = [] \<or> \<not> is_digit (hd t) \<Longrightarrow> dropWhile is_digit (a @ t) = dropWhile is_digit a @ t"
proof (induction a)
  case Nil
  then show ?case by (cases t) auto
next
  case (Cons x a)
  then show ?case by simp
qed

lemma dice_pattern_match_append:
  assumes m: "dice_pattern_match s = Some m"
    and t: "t = [] \<or> (\<not> is_digit (hd t) \<and> \<not> is_sign (hd t))"
  shows "dice_pattern_match (s @ t) = Some m"
proof -
  from t have td: "t = [] \<or> \<not> is_digit (hd t)" by blast
  from m obtain r2 where r1: "dropWhile is_digit s = CHR ''d'' # r2"
    by (auto simp: dice_pattern_match_def Let_def split: list.splits if_splits)
  have a: "takeWhile is_digit (s @ t) = takeWhile is_digit s"
    "dropWhile is_digit (s @ t) = CHR ''d'' # (r2 @ t)"
    using takeWhile_digit_append [OF td, of s] dropWhile_digit_append [OF td, of s] r1 by simp_all
  have b: "takeWhile is_digit (r2 @ t) = takeWhile is_digit r2"
    "dropWhile is_digit (r2 @ t) = dropWhile is_digit r2 @ t"
    using takeWhile_digit_append [OF td, of r2] dropWhile_digit_append [OF td, of r2] by simp_all
  have c: "(case dropWhile is_digit r2 @ t of
              [] \<Rightarrow> Some (g1, g2, None)
            | c' # r4 \<Rightarrow>
                if is_sign c' \<and> takeWhile is_digit r4 \<noteq> []
                then Some (g1, g2, Some (c', takeWhile is_digit r4))
                else Some (g1, g2, None)) =
           (case dropWhile is_digit r2 of
              [] \<Rightarrow> Some (g1, g2, None)
            | c' # r4 \<Rightarrow>
                if is_sign c' \<and> takeWhile is_digit r4 \<noteq> []
                then Some (g1, g2, Some (c', takeWhile is_digit r4))
                else Some (g1, g2, None))" for g1 g2 :: string
  proof (cases "dropWhile is_digit r2")
    case Nil
    show ?thesis unfolding Nil using t by (cases t) auto
  next
    case (Cons c' r4)
    show ?thesis unfolding Cons using takeWhile_digit_append [OF td, of r4] by simp
  qed
  have "dice_pattern_match (s @ t) = dice_pattern_match s"
    unfolding dice_pattern_match_def a b Let_def r1 list.case c ..
  with m show ?thesis by simp
qed

lemma parse_expression_append:
  assumes "parse_expression e = Inr p"
    and "remove_spaces (lower t) = [] \<or>
         (\<not> is_digit (hd (remove_spaces (lower t))) \<and> \<not> is_sign (hd (remove_spaces (lower t))))"
  shows "parse_expression (e @ t) = Inr p"
proof -
  from assms(1) obtain m where m: "dice_pattern_match (remove_spaces (lower e)) = Some m"
    by (auto simp: parse_expression_def split: option.splits)
  from dice_pattern_match_append [OF m assms(2)] m assms(1) show ?thesis
    by (simp add: parse_expression_def normalise_append)
qed

lemma roll_append:
  assumes "roll e g = (Inr r, g')"
    and t: "remove_spaces (lower t) = [] \<or>
         (\<not> is_digit (hd (remove_spaces (lower t))) \<and> \<not> is_sign (hd (remove_spaces (lower t))))"
  shows "roll (e @ t) g = (Inr (r\<lparr>expression := e @ t\<rparr>), g')"
proof (cases "parse_expression e")
  case (Inl err)
  with roll_Inl [OF Inl, of g] assms(1) show ?thesis by simp
next
  case (Inr p)
  obtain n s operator m where p: "p = (n, s, operator, m)" by (cases p)
  have rng: "1 \<le> n \<and> n \<le> 100 \<and> 1 \<le> s \<and> s \<le> 1000"
    using roll_out_of_range [of e n s operator m g] Inr p assms(1) by auto
  from parse_expression_append [OF Inr t] p
  have "parse_expression (e @ t) = Inr (n, s, operator, m)" by simp
  from roll_in_range [OF this rng, of g] roll_in_range [OF Inr [unfolded p] rng, of g] assms(1)
  show ?thesis by auto
qed

lemma adv_options_append:
  "t = [] \<or> (\<not> is_digit (hd t) \<and> \<not> is_sign (hd t) \<and> \<not> is_opchar (hd t)) \<Longrightarrow>
     adv_options (s @ t) = adv_options s"
proof (induction s rule: adv_options.induct)
  case 1
  then show ?case by (cases t) auto
next
  case (2 c cs)
  from "2.prems" have td: "t = [] \<or> \<not> is_digit (hd t)" by blast
  show ?case
    using "2.IH" "2.prems" takeWhile_digit_append [OF td, of cs] dropWhile_digit_append [OF td, of cs]
    by simp
qed

lemma adv_dice_pattern_match_append:
  assumes m: "adv_dice_pattern_match s = Some m"
    and t: "t = [] \<or> (\<not> is_digit (hd t) \<and> \<not> is_sign (hd t) \<and> \<not> is_opchar (hd t))"
  shows "adv_dice_pattern_match (s @ t) = Some m"
proof -
  from t have td: "t = [] \<or> \<not> is_digit (hd t)" by blast
  from m obtain r2 where r1: "dropWhile is_digit s = CHR ''d'' # r2"
    by (auto simp: adv_dice_pattern_match_def Let_def split: list.splits if_splits)
  have a: "takeWhile is_digit (s @ t) = takeWhile is_digit s"
    "dropWhile is_digit (s @ t) = CHR ''d'' # (r2 @ t)"
    using takeWhile_digit_append [OF td, of s] dropWhile_digit_append [OF td, of s] r1 by simp_all
  have b: "takeWhile is_digit (r2 @ t) = takeWhile is_digit r2"
    "dropWhile is_digit (r2 @ t) = dropWhile is_digit r2 @ t"
    using takeWhile_digit_append [OF td, of r2] dropWhile_digit_append [OF td, of r2] by simp_all
  have "adv_dice_pattern_match (s @ t) = adv_dice_pattern_match s"
    unfolding adv_dice_pattern_match_def a b Let_def r1 list.case adv_options_append [OF t] ..
  with m show ?thesis by simp
qed

lemma roll_with_options_expression:
  "roll_with_options e' n s opts m g =
     (case roll_with_options e n s opts m g of
        None \<Rightarrow> None
      | Some (r, g') \<Rightarrow> Some (r\<lparr>expression := e'\<rparr>, g'))"
  by (simp add: roll_with_options_def finish_def Let_def case_prod_beta split: option.splits)

lemma roll_advanced_append:
  assumes a: "roll_advanced e g = Some (Inr r, g')"
    and t: "remove_spaces (lower t) = [] \<or>
         (\<not> is_digit (hd (remove_spaces (lower t))) \<and> \<not> is_sign (hd (remove_spaces (lower t)))
          \<and> \<not> is_opchar (hd (remove_spaces (lower t))))"
  shows "roll_advanced (e @ t) g = Some (Inr (r\<lparr>expression := e @ t\<rparr>), g')"
proof -
  from a obtain c s optstr where m: "adv_dice_pattern_match (remove_spaces (lower e)) = Some (c, s, optstr)"
    by (auto simp: roll_advanced_def split: option.splits)
  note ra = roll_advanced_Inr [OF a m]
  have m': "adv_dice_pattern_match (remove_spaces (lower (e @ t))) = Some (c, s, optstr)"
    using adv_dice_pattern_match_append [OF m t] by (simp add: normalise_append)
  from ra have v: "1 \<le> (case c of Some ds \<Rightarrow> int_of_digits ds | None \<Rightarrow> 1)"
      "(case c of Some ds \<Rightarrow> int_of_digits ds | None \<Rightarrow> 1) \<le> 100"
      "1 \<le> int_of_digits s" "int_of_digits s \<le> 1000" by simp_all
  from ra have rw: "roll_with_options e (case c of Some ds \<Rightarrow> int_of_digits ds | None \<Rightarrow> 1)
               (int_of_digits s)
               (fst (parse_options (case c of Some ds \<Rightarrow> int_of_digits ds | None \<Rightarrow> 1) optstr))
               (snd (parse_options (case c of Some ds \<Rightarrow> int_of_digits ds | None \<Rightarrow> 1) optstr)) g
             = Some (r, g')" by simp
  show ?thesis
    unfolding roll_advanced_valid [OF m' refl refl v]
    by (subst roll_with_options_expression [where e = e]) (simp add: rw)
qed


lemma roll_2d6xyz:
  "roll ''2d6xyz'' g =
     (Inr \<lparr>expression = ''2d6xyz'', rolls = fst (roll_simple 2 6 g),
            total = sum_list (fst (roll_simple 2 6 g)),
            breakdown = str_int (sum_list (fst (roll_simple 2 6 g)))\<rparr>, snd (roll_simple 2 6 g))"
  by (simp add: roll_eval case_prod_beta)

text \<open>
  C9. \<^verbatim>\<open>roll\<close> and \<^verbatim>\<open>roll_advanced\<close> match their pattern against a prefix of the input and never
  look at what follows the match: when a call on an expression returns, the call on the
  expression followed by any trailing text that cannot continue the match (after
  normalisation it is empty or starts with a character that is no digit and no sign, and
  for \<^verbatim>\<open>roll_advanced\<close> no option character) returns the same rolls, total and breakdown, and
  only the recorded expression differs. In particular \<^verbatim>\<open>roll("2d6xyz")\<close> rolls 2d6.
\<close>

theorem trailing_characters_ignored:
  "(roll e g = (Inr r, g') \<longrightarrow>
      (remove_spaces (lower t) = [] \<or>
         (\<not> is_digit (hd (remove_spaces (lower t))) \<and> \<not> is_sign (hd (remove_spaces (lower t))))) \<longrightarrow>
      roll (e @ t) g = (Inr (r\<lparr>expression := e @ t\<rparr>), g'))
   \<and> (roll_advanced e g = Some (Inr r', g'') \<longrightarrow>
      (remove_spaces (lower t) = [] \<or>
         (\<not> is_digit (hd (remove_spaces (lower t))) \<and> \<not> is_sign (hd (remove_spaces (lower t)))
          \<and> \<not> is_opchar (hd (remove_spaces (lower t))))) \<longrightarrow>
      roll_advanced (e @ t) g = Some (Inr (r'\<lparr>expression := e @ t\<rparr>), g''))
   \<and> roll ''2d6xyz'' g =
       (Inr \<lparr>expression = ''2d6xyz'', rolls = fst (roll_simple 2 6 g),
              total = sum_list (fst (roll_simple 2 6 g)),
              breakdown = str_int (sum_list (fst (roll_simple 2 6 g)))\<rparr>, snd (roll_simple 2 6 g))"
  using roll_append [of e g r g' t] roll_advanced_append [of e g r' g'' t] roll_2d6xyz [of g]
  by blast

theorem trailing_characters_ignored_witness:
  "roll ''2d6+3'' example_rng =
     (Inr \<lparr>expression = ''2d6+3'', rolls = [6, 1], total = 10, breakdown = ''7 + 3''\<rparr>,
      example_rng\<lparr>pos := 2\<rparr>)
   \<and> roll ''2d6+3 xyz'' example_rng =
     (Inr \<lparr>expression = ''2d6+3 xyz'', rolls = [6, 1], total = 10, breakdown = ''7 + 3''\<rparr>,
      example_rng\<lparr>pos := 2\<rparr>)
   \<and> roll_advanced ''2d6!'' example_rng =
     Some (Inr \<lparr>expression = ''2d6!'', rolls = [6, 1, 1], total = 8, breakdown = ''Exploding: [6, 1, 1]''\<rparr>,
           example_rng\<lparr>pos := 3\<rparr>)
   \<and> roll_advanced ''2d6! yz'' example_rng =
     Some (Inr \<lparr>expression = ''2d6! yz'', rolls = [6, 1, 1], total = 8, breakdown = ''Exploding: [6, 1, 1]''\<rparr>,
           example_rng\<lparr>pos := 3\<rparr>)"
proof -
  have t1: "remove_spaces (lower '' xyz'') = [] \<or>
         (\<not> is_digit (hd (remove_spaces (lower '' xyz''))) \<and> \<not> is_sign (hd (remove_spaces (lower '' xyz''))))"
    by (simp add: roll_eval)
  have t2: "remove_spaces (lower '' yz'') = [] \<or>
         (\<not> is_digit (hd (remove_spaces (lower '' yz''))) \<and> \<not> is_sign (hd (remove_spaces (lower '' yz'')))
          \<and> \<not> is_opchar (hd (remove_spaces (lower '' yz''))))"
    by (simp add: roll_eval is_opchar_def)
  note a = trailing_characters_ignored [where e = "''2d6+3''" and g = example_rng and t = "'' xyz''",
      THEN conjunct1, rule_format, OF ex_roll t1]
  note b = trailing_characters_ignored [where e = "''2d6!''" and g = example_rng and t = "'' yz''",
      THEN conjunct2, THEN conjunct1, rule_format, OF ex_roll_advanced t2]
  from a b ex_roll ex_roll_advanced show ?thesis by simp
qed

section \<open>A k tag without digits\<close>

lemma ex_adv_match3:
  "adv_dice_pattern_match (remove_spaces (lower ''1d2!k'')) = Some (Some ''1'', ''2'', ''!k'')"
  "adv_dice_pattern_match (remove_spaces (lower ''1d2!'')) = Some (Some ''1'', ''2'', ''!'')"
  by (simp_all add: adv_eval)

lemmas options_eval = roll_with_options_def first_rolls_def handle_rerolls_def
  handle_keep_highest_def handle_keep_lowest_def finish_def explode_while.simps
  str_list_def str_int_def digits_of.simps digit_char_def

lemma handle_rerolls_length:
  "length (fst (handle_rerolls threshold sides (rs, bd, g))) = length rs"
  by (simp add: handle_rerolls_def Let_def case_prod_beta reroll_loop_length)

lemma handle_keep_highest_noop:
  "\<not> (0 < k \<and> k < int (length rs)) \<Longrightarrow> handle_keep_highest k (rs, bd) = (rs, bd)"
  by (simp add: handle_keep_highest_def)

lemma ex_adv_match4:
  "adv_dice_pattern_match (remove_spaces (lower ''4d6k3k'')) = Some (Some ''4'', ''6'', ''k3k'')"
  "adv_dice_pattern_match (remove_spaces (lower ''4d6k3'')) = Some (Some ''4'', ''6'', ''k3'')"
  "adv_dice_pattern_match (remove_spaces (lower ''2d6+5k'')) = Some (Some ''2'', ''6'', ''+5k'')"
  "adv_dice_pattern_match (remove_spaces (lower ''2d6+5'')) = Some (Some ''2'', ''6'', ''+5'')"
  "adv_dice_pattern_match (remove_spaces (lower ''2d4!'')) = Some (Some ''2'', ''4'', ''!'')"
  "adv_dice_pattern_match (remove_spaces (lower ''4d6'')) = Some (Some ''4'', ''6'', [])"
  by (simp_all add: adv_eval)

lemma ex_4d6k3:
  "roll_advanced ''4d6k3'' example_rng =
     Some (Inr \<lparr>expression = ''4d6k3'', rolls = [6, 1, 1], total = 8,
                 breakdown = ''Rolls: [6, 1, 1, 1] (Keep highest 3)''\<rparr>, example_rng\<lparr>pos := 4\<rparr>)"
  unfolding roll_advanced_def ex_adv_match4
  by (simp add: adv_eval rng_eval options_eval)

lemma ex_2d4:
  "roll_advanced ''2d4!'' example_rng =
     Some (Inr \<lparr>expression = ''2d4!'', rolls = [2, 1], total = 3,
                 breakdown = ''Exploding: [2, 1]''\<rparr>, example_rng\<lparr>pos := 2\<rparr>)"
  unfolding roll_advanced_def ex_adv_match4
  by (simp add: adv_eval rng_eval options_eval)

lemma ex_explode_for:
  "explode_for (nat 2) 4 [] example_rng = Some ([2, 1], example_rng\<lparr>pos := 2\<rparr>)"
  by (simp add: rng_eval explode_while.simps)

text \<open>
  C7. The claim is that a k tag without digits never changes the working set or the total:
  the result is that of the identical expression without the tag, whatever the other
  options. Three pairs of calls on the same draws show where it does not hold. With the
  exploding flag and a die that explodes, 1d2!k cuts the working set [2, 1] to [2] and
  totals 2, while 1d2! keeps [2, 1] and totals 3. After an earlier k tag with digits the
  bare tag replaces its number by the count: 4d6k3k keeps all four dice, 4d6k3 keeps
  three. Directly after the modifier the tag stops it from being the modifier: 2d6+5k
  totals 7, 2d6+5 totals 12.
\<close>

theorem bare_k_counterexample:
  "roll_advanced ''1d2!k'' example_rng =
     Some (Inr \<lparr>expression = ''1d2!k'', rolls = [2], total = 2,
                 breakdown = ''Exploding: [2, 1] (Keep highest 1)''\<rparr>, example_rng\<lparr>pos := 2\<rparr>)
   \<and> roll_advanced ''1d2!'' example_rng =
     Some (Inr \<lparr>expression = ''1d2!'', rolls = [2, 1], total = 3,
                 breakdown = ''Exploding: [2, 1]''\<rparr>, example_rng\<lparr>pos := 2\<rparr>)
   \<and> roll_advanced ''4d6k3k'' example_rng =
     Some (Inr \<lparr>expression = ''4d6k3k'', rolls = [6, 1, 1, 1], total = 9,
                 breakdown = ''Rolls: [6, 1, 1, 1]''\<rparr>, example_rng\<lparr>pos := 4\<rparr>)
   \<and> roll_advanced ''4d6k3'' example_rng =
     Some (Inr \<lparr>expression = ''4d6k3'', rolls = [6, 1, 1], total = 8,
                 breakdown = ''Rolls: [6, 1, 1, 1] (Keep highest 3)''\<rparr>, example_rng\<lparr>pos := 4\<rparr>)
   \<and> roll_advanced ''2d6+5k'' example_rng =
     Some (Inr \<lparr>expression = ''2d6+5k'', rolls = [6, 1], total = 7,
                 breakdown = ''Rolls: [6, 1]''\<rparr>, example_rng\<lparr>pos := 2\<rparr>)
   \<and> roll_advanced ''2d6+5'' example_rng =
     Some (Inr \<lparr>expression = ''2d6+5'', rolls = [6, 1], total = 12,
                 breakdown = ''Rolls: [6, 1] + 5''\<rparr>, example_rng\<lparr>pos := 2\<rparr>)"
  unfolding roll_advanced_def ex_adv_match3 ex_adv_match4
  by (simp add: adv_eval rng_eval options_eval)

lemma adv_options_head:
  "adv_options x = [] \<or> is_sign (hd (adv_options x)) \<or> is_opchar (hd (adv_options x))"
  by (cases x) auto

lemma adv_options_fixed_append:
  "adv_options o1 = o1 \<Longrightarrow> x = [] \<or> \<not> is_digit (hd x) \<Longrightarrow>
     adv_options (o1 @ x) = o1 @ adv_options x"
proof (induction o1 rule: adv_options.induct)
  case 1
  show ?case by simp
next
  case (2 c cs)
  from "2.prems"(1) have cond: "(is_sign c \<and> takeWhile is_digit cs \<noteq> []) \<or> is_opchar c"
    by (auto split: if_splits)
  with "2.prems"(1) have "takeWhile is_digit cs @ adv_options (dropWhile is_digit cs) = cs" by simp
  then have "takeWhile is_digit cs @ adv_options (dropWhile is_digit cs)
               = takeWhile is_digit cs @ dropWhile is_digit cs" by simp
  then have fx: "adv_options (dropWhile is_digit cs) = dropWhile is_digit cs" by (simp only: same_append_eq)
  from "2.IH" [OF cond fx "2.prems"(2)]
  have "adv_options (dropWhile is_digit cs @ x) = dropWhile is_digit cs @ adv_options x" .
  then show ?case
    using cond takeWhile_digit_append [OF "2.prems"(2), of cs] dropWhile_digit_append [OF "2.prems"(2), of cs]
    by simp
qed

lemma mod_search_append_tokens:
  assumes "v \<noteq> []" and "is_sign (hd v) \<or> is_opchar (hd v)"
  shows "mod_search (u @ v) =
           (case mod_search v of None \<Rightarrow> None | Some (i, sg, ds) \<Rightarrow> Some (length u + i, sg, ds))"
proof (induction u)
  case Nil
  show ?case by (simp split: option.splits)
next
  case (Cons c u)
  have nd: "\<not> is_digit (hd v)" using assms(2) digit_not_sign digit_not_opchar by blast
  then have d: "dropWhile is_digit (u @ v) = dropWhile is_digit u @ v"
    using dropWhile_digit_append [of v u] by simp
  have "hd v \<noteq> CHR 0x0A" using assms(2) by (auto simp: is_sign_def is_opchar_def)
  with assms(1) have "\<not> at_dollar (w @ v)" for w :: string
    by (cases v; cases w) (auto simp: at_dollar_def)
  with d Cons.IH show ?case by (simp split: option.splits)
qed

lemma operators_finditer_append:
  "z = [] \<or> \<not> is_digit (hd z) \<Longrightarrow>
     operators_finditer (u @ z) = operators_finditer u @ operators_finditer z"
proof (induction u rule: operators_finditer.induct)
  case 1
  show ?case by simp
next
  case (2 c cs)
  then show ?case
    using takeWhile_digit_append [OF "2.prems", of cs] dropWhile_digit_append [OF "2.prems", of cs]
    by simp
qed

lemma operators_finditer_bare_k:
  "y = [] \<or> \<not> is_digit (hd y) \<Longrightarrow>
     operators_finditer (CHR ''k'' # y) = (CHR ''k'', []) # operators_finditer y"
  by (cases y) (auto simp: is_opchar_def)

lemma apply_operator_bare_k:
  "apply_operator n opts (CHR ''k'', []) = opts\<lparr>keep_highest := n\<rparr>"
  by (simp add: apply_operator_def)

lemma foldl_apply_operator_keep_highest:
  "foldl (apply_operator n) (opts\<lparr>keep_highest := v\<rparr>) ts =
     (if CHR ''k'' \<in> fst ` set ts then foldl (apply_operator n) opts ts
      else (foldl (apply_operator n) opts ts)\<lparr>keep_highest := v\<rparr>)"
proof (induction ts arbitrary: opts)
  case Nil
  show ?case by simp
next
  case (Cons t ts)
  show ?case
  proof (cases "fst t = CHR ''k''")
    case True
    then have "apply_operator n (opts\<lparr>keep_highest := v\<rparr>) t = apply_operator n opts t"
      by (simp add: apply_operator_def Let_def)
    with True show ?thesis by (auto simp: image_iff)
  next
    case False
    then have "apply_operator n (opts\<lparr>keep_highest := v\<rparr>) t = (apply_operator n opts t)\<lparr>keep_highest := v\<rparr>"
      by (simp add: apply_operator_def Let_def)
    with False Cons.IH [of "apply_operator n opts t"] show ?thesis by simp
  qed
qed

lemma foldl_apply_operator_no_k:
  "CHR ''k'' \<notin> fst ` set ts \<Longrightarrow>
     keep_highest (foldl (apply_operator n) opts ts) = keep_highest opts"
  by (induction ts arbitrary: opts) (auto simp: apply_operator_def Let_def)

lemma foldl_apply_operator_exploding:
  "exploding (foldl (apply_operator n) opts ts) = (exploding opts \<or> CHR ''!'' \<in> fst ` set ts)"
  by (induction ts arbitrary: opts) (auto simp: apply_operator_def Let_def)

lemma parse_options_exploding:
  "exploding (fst (parse_options n s)) = (CHR ''!'' \<in> set s)"
proof -
  have a: "is_opchar CHR ''!''" by (simp add: is_opchar_def)
  show ?thesis
    using a parse_options_ops [of s]
    by (auto simp: parse_options_def foldl_apply_operator_exploding initial_options_def
        operators_finditer_ops mod_search_opchars split: option.splits)
qed

lemma parse_options_no_k:
  "CHR ''k'' \<notin> set s \<Longrightarrow> keep_highest (fst (parse_options n s)) = 0"
proof -
  assume k: "CHR ''k'' \<notin> set s"
  have "CHR ''k'' \<notin> fst ` set (operators_finditer (case mod_search s of Some (i, sg, ds) \<Rightarrow> take i s | None \<Rightarrow> s))"
    using k by (simp add: parse_options_ops)
  then show ?thesis
    by (auto simp: parse_options_def foldl_apply_operator_no_k initial_options_def split: option.splits)
qed


lemma parse_options_bare_k:
  assumes hd: "o2 = [] \<or> is_sign (hd o2) \<or> is_opchar (hd o2)"
    and modpos: "o2 = [] \<longrightarrow> mod_search o1 = None"
  shows "parse_options n (o1 @ CHR ''k'' # o2) =
           (if CHR ''k'' \<in> set o2 then fst (parse_options n (o1 @ o2))
            else (fst (parse_options n (o1 @ o2)))\<lparr>keep_highest := n\<rparr>,
            snd (parse_options n (o1 @ o2)))"
proof -
  have k: "is_opchar CHR ''k''" "\<not> is_sign CHR ''k''" by (simp_all add: is_opchar_def is_sign_def)
  have nd: "o2 = [] \<or> \<not> is_digit (hd o2)" using hd digit_not_sign digit_not_opchar by blast
  have m1: "mod_search (o1 @ CHR ''k'' # o2) =
              (case mod_search o2 of None \<Rightarrow> None | Some (i, sg, ds) \<Rightarrow> Some (length o1 + Suc i, sg, ds))"
    using mod_search_append_tokens [of "CHR ''k'' # o2" o1] k nd
    by (cases o2) (auto split: option.splits)
  have m2: "mod_search (o1 @ o2) =
              (case mod_search o2 of None \<Rightarrow> None | Some (i, sg, ds) \<Rightarrow> Some (length o1 + i, sg, ds))"
  proof (cases "o2 = []")
    case True
    with modpos show ?thesis by simp
  next
    case False
    with hd show ?thesis by (simp add: mod_search_append_tokens)
  qed
  have toks: "operators_finditer (o1 @ CHR ''k'' # y) =
                operators_finditer o1 @ (CHR ''k'', []) # operators_finditer y"
    and toks': "operators_finditer (o1 @ y) = operators_finditer o1 @ operators_finditer y"
    if "y = [] \<or> \<not> is_digit (hd y)" for y
    using that operators_finditer_append [of "CHR ''k'' # y" o1] operators_finditer_append [of y o1]
      operators_finditer_bare_k [of y] digit_not_opchar [of "CHR ''k''"] k(1)
    by auto
  have fold: "foldl (apply_operator n) initial_options (operators_finditer o1 @ (CHR ''k'', []) # operators_finditer y) =
                (if CHR ''k'' \<in> set y
                 then foldl (apply_operator n) initial_options (operators_finditer o1 @ operators_finditer y)
                 else (foldl (apply_operator n) initial_options (operators_finditer o1 @ operators_finditer y))\<lparr>keep_highest := n\<rparr>)"
    for y
    using k(1) by (simp add: apply_operator_bare_k foldl_apply_operator_keep_highest operators_finditer_ops)
  show ?thesis
  proof (cases "mod_search o2")
    case None
    from toks [OF nd] toks' [OF nd] fold [of o2] show ?thesis
      by (simp add: parse_options_def m1 m2 None)
  next
    case (Some p)
    obtain j sg ds where p: "p = (j, sg, ds)" by (cases p)
    have ndj: "take j o2 = [] \<or> \<not> is_digit (hd (take j o2))"
      using nd by (cases j; cases o2) auto
    have kj: "(CHR ''k'' \<in> set (take j o2)) = (CHR ''k'' \<in> set o2)"
      using mod_search_opchars [OF Some [unfolded p]] k(1) by blast
    from toks [OF ndj] toks' [OF ndj] fold [of "take j o2"] kj show ?thesis
      by (simp add: parse_options_def m1 m2 Some p)
  qed
qed

lemma keep_highest_count_noop:
  assumes "advantage opts \<or> disadvantage opts \<or>
           (\<forall>rs bd g1. first_rolls (exploding opts) num_dice sides g = Some (rs, bd, g1)
               \<longrightarrow> length rs \<le> nat num_dice)"
  shows "roll_with_options expr num_dice sides (opts\<lparr>keep_highest := num_dice\<rparr>) modifier g =
         roll_with_options expr num_dice sides (opts\<lparr>keep_highest := 0\<rparr>) modifier g"
proof (cases "advantage opts \<or> disadvantage opts")
  case True
  then show ?thesis by (simp add: roll_with_options_def)
next
  case False
  show ?thesis
  proof (cases "first_rolls (exploding opts) num_dice sides g")
    case None
    with False show ?thesis by (simp add: roll_with_options_def)
  next
    case (Some p)
    obtain rs bd g1 where p: "p = (rs, bd, g1)" by (cases p)
    obtain rs1 bd1 g2 where h1: "handle_rerolls (reroll_threshold opts) sides (rs, bd, g1) = (rs1, bd1, g2)"
      by (cases "handle_rerolls (reroll_threshold opts) sides (rs, bd, g1)")
    from assms False Some p have "length rs \<le> nat num_dice" by blast
    then have "length rs1 \<le> nat num_dice"
      using handle_rerolls_length [of "reroll_threshold opts" sides rs bd g1] h1 by simp
    then have "\<not> (0 < num_dice \<and> num_dice < int (length rs1))" by linarith
    from handle_keep_highest_noop [OF this]
    have "handle_keep_highest num_dice (rs1, bd1) = (rs1, bd1)" .
    moreover have "handle_keep_highest 0 (rs1, bd1) = (rs1, bd1)"
      by (simp add: handle_keep_highest_def)
    ultimately show ?thesis
      using False Some p h1 by (simp add: roll_with_options_def)
  qed
qed

lemma first_rolls_plain_length:
  "first_rolls False num_dice sides g = Some (rs, bd, g1) \<Longrightarrow> length rs = nat num_dice"
  using roll_n_length [of "nat num_dice" sides g]
  by (auto simp: first_rolls_def roll_simple_def Let_def case_prod_beta)

lemma first_rolls_exploding:
  "first_rolls True num_dice sides g = Some (rs, bd, g1) \<Longrightarrow>
     explode_for (nat num_dice) sides [] g = Some (rs, g1)"
  by (auto simp: first_rolls_def split: option.splits)

lemma adv_dice_pattern_match_whole:
  assumes m: "adv_dice_pattern_match s0 = Some (c, s, o1)"
    and whole: "s0 = (case c of Some ds \<Rightarrow> ds | None \<Rightarrow> []) @ ''d'' @ s @ o1"
    and x: "x = [] \<or> \<not> is_digit (hd x)"
  shows "adv_dice_pattern_match (s0 @ x) = Some (c, s, adv_options (o1 @ x))"
    and "adv_options o1 = o1"
proof -
  from m obtain r2 where r1: "dropWhile is_digit s0 = CHR ''d'' # r2"
    and c: "c = (if takeWhile is_digit s0 = [] then None else Some (takeWhile is_digit s0))"
    and s: "s = takeWhile is_digit r2" "s \<noteq> []"
    and o1: "o1 = adv_options (dropWhile is_digit r2)"
    by (auto simp: adv_dice_pattern_match_def Let_def split: list.splits if_splits)
  have cds: "(case c of Some ds \<Rightarrow> ds | None \<Rightarrow> []) = takeWhile is_digit s0" using c by simp
  have e1: "s0 = takeWhile is_digit s0 @ CHR ''d'' # s @ dropWhile is_digit r2"
    using takeWhile_dropWhile_id [of is_digit s0] takeWhile_dropWhile_id [of is_digit r2] r1 s(1) by simp
  have e2: "s0 = takeWhile is_digit s0 @ CHR ''d'' # s @ o1"
    using whole cds by simp
  have "takeWhile is_digit s0 @ CHR ''d'' # s @ dropWhile is_digit r2 =
        takeWhile is_digit s0 @ CHR ''d'' # s @ o1"
    using e1 e2 by (rule trans [OF sym])
  then have d: "dropWhile is_digit r2 = o1" by simp
  with o1 show fx: "adv_options o1 = o1" by simp
  have a: "takeWhile is_digit (s0 @ x) = takeWhile is_digit s0"
    "dropWhile is_digit (s0 @ x) = CHR ''d'' # (r2 @ x)"
    using takeWhile_digit_append [OF x, of s0] dropWhile_digit_append [OF x, of s0] r1 by simp_all
  have b: "takeWhile is_digit (r2 @ x) = s" "dropWhile is_digit (r2 @ x) = o1 @ x"
    using takeWhile_digit_append [OF x, of r2] dropWhile_digit_append [OF x, of r2] s(1) d by simp_all
  show "adv_dice_pattern_match (s0 @ x) = Some (c, s, adv_options (o1 @ x))"
    unfolding adv_dice_pattern_match_def a b Let_def list.case using s(2) c by simp
qed


lemma adv_options_bare_k:
  "nb = [] \<or> \<not> is_digit (hd nb) \<Longrightarrow> adv_options (CHR ''k'' # nb) = CHR ''k'' # adv_options nb"
  by (cases nb) (auto simp: is_opchar_def)

lemma lower_char_K: "lower_char CHR ''K'' = CHR ''k''"
proof -
  have "(of_char CHR ''k'' :: nat) = 107" by simp
  then have "char_of (107::nat) = CHR ''k''" by (metis char_of_char)
  then show ?thesis by (simp add: lower_char_def)
qed

lemma normalise_k:
  "lower_char kc = CHR ''k'' \<Longrightarrow>
     remove_spaces (lower (a @ kc # b)) = remove_spaces (lower a) @ CHR ''k'' # remove_spaces (lower b)"
  by (simp add: normalise_append normalise_Cons)

text \<open>
  C7, amended. Take an advanced expression with a k tag whose digit count is omitted, the
  tag standing among the options and not directly after a trailing modifier that ends them.
  Unless a later k tag overrides it, the tag sets keep-highest to the dice count. Whenever
  the call on the identical expression without that tag returns, the call on the
  expression with it returns the same rolls, total, breakdown and generator
  \<^item> if another k tag follows it, and
  \<^item> if it is the only k tag and no more than count dice reach the keep-highest step: that
    is always so when the exploding flag is absent or an advantage or disadvantage flag is
    present, and with exploding applied it is so whenever no die explodes.
\<close>

theorem bare_k_same_as_without:
  assumes tag: "kc = CHR ''k'' \<or> kc = CHR ''K''"
    and m: "adv_dice_pattern_match (remove_spaces (lower a)) = Some (c, s, o1)"
    and whole: "remove_spaces (lower a) = (case c of Some ds \<Rightarrow> ds | None \<Rightarrow> []) @ ''d'' @ s @ o1"
    and bare: "remove_spaces (lower b) = [] \<or> \<not> is_digit (hd (remove_spaces (lower b)))"
    and o2: "o2 = adv_options (remove_spaces (lower b))"
    and modpos: "o2 = [] \<longrightarrow> mod_search o1 = None"
    and n: "num_dice = (case c of Some ds \<Rightarrow> int_of_digits ds | None \<Rightarrow> 1)"
    and sides: "sides = int_of_digits s"
    and ret: "roll_advanced (a @ b) g = Some (Inr r, g')"
    and cond: "CHR ''k'' \<in> set o2 \<or>
               (CHR ''k'' \<notin> set o1 \<and>
                 (CHR ''!'' \<notin> set (o1 @ o2) \<or> CHR ''a'' \<in> set (o1 @ o2) \<or> CHR ''d'' \<in> set (o1 @ o2) \<or>
                  (\<exists>rs g1. explode_for (nat num_dice) sides [] g = Some (rs, g1) \<and> length rs = nat num_dice)))"
  shows "adv_dice_pattern_match (remove_spaces (lower (a @ kc # b))) = Some (c, s, o1 @ ''k'' @ o2)
         \<and> adv_dice_pattern_match (remove_spaces (lower (a @ b))) = Some (c, s, o1 @ o2)
         \<and> (CHR ''k'' \<notin> set o2 \<longrightarrow>
               keep_highest (fst (parse_options num_dice (o1 @ ''k'' @ o2))) = num_dice)
         \<and> roll_advanced (a @ kc # b) g = Some (Inr (r\<lparr>expression := a @ kc # b\<rparr>), g')"
proof -
  let ?na = "remove_spaces (lower a)" and ?nb = "remove_spaces (lower b)"
  let ?e1 = "a @ kc # b"
  have lk: "lower_char kc = CHR ''k''" using tag lower_char_K by (auto simp: lower_char_def)
  let ?po2 = "parse_options num_dice (o1 @ o2)"
  have kx: "CHR ''k'' # ?nb = [] \<or> \<not> is_digit (hd (CHR ''k'' # ?nb))" by (simp add: is_digit_def)
  note fx = adv_dice_pattern_match_whole(2) [OF m whole bare]
  have m2: "adv_dice_pattern_match (remove_spaces (lower (a @ b))) = Some (c, s, o1 @ o2)"
    using adv_dice_pattern_match_whole(1) [OF m whole bare] adv_options_fixed_append [OF fx bare] o2
    by (simp add: normalise_append)
  have "adv_options (o1 @ CHR ''k'' # ?nb) = o1 @ CHR ''k'' # o2"
    by (simp only: adv_options_fixed_append [OF fx kx] adv_options_bare_k [OF bare] o2)
  with adv_dice_pattern_match_whole(1) [OF m whole kx]
  have "adv_dice_pattern_match (?na @ CHR ''k'' # ?nb) = Some (c, s, o1 @ CHR ''k'' # o2)"
    by (simp only:)
  then have m1: "adv_dice_pattern_match (remove_spaces (lower ?e1)) = Some (c, s, o1 @ CHR ''k'' # o2)"
    by (simp add: normalise_k [OF lk])
  have hd2: "o2 = [] \<or> is_sign (hd o2) \<or> is_opchar (hd o2)"
    unfolding o2 by (rule adv_options_head)
  have po1: "parse_options num_dice (o1 @ CHR ''k'' # o2) =
           (if CHR ''k'' \<in> set o2 then fst ?po2
            else (fst ?po2)\<lparr>keep_highest := num_dice\<rparr>, snd ?po2)"
    by (rule parse_options_bare_k [OF hd2 modpos])
  note ra = roll_advanced_Inr [OF ret m2]
  from ra have v: "1 \<le> num_dice" "num_dice \<le> 100" "1 \<le> sides" "sides \<le> 1000"
    unfolding n sides by simp_all
  from ra have rw2: "roll_with_options (a @ b) num_dice sides (fst ?po2) (snd ?po2) g = Some (r, g')"
    unfolding n sides by simp
  have ex: "roll_with_options ?e1 num_dice sides (fst ?po2) (snd ?po2) g = Some (r\<lparr>expression := ?e1\<rparr>, g')"
    by (subst roll_with_options_expression [where e = "a @ b"]) (simp add: rw2)
  have rw1: "roll_with_options ?e1 num_dice sides (fst (parse_options num_dice (o1 @ CHR ''k'' # o2)))
               (snd (parse_options num_dice (o1 @ CHR ''k'' # o2))) g = Some (r\<lparr>expression := ?e1\<rparr>, g')"
  proof (cases "CHR ''k'' \<in> set o2")
    case True
    with po1 ex show ?thesis by simp
  next
    case False
    with cond have k1: "CHR ''k'' \<notin> set o1"
      and c2: "CHR ''!'' \<notin> set (o1 @ o2) \<or> CHR ''a'' \<in> set (o1 @ o2) \<or> CHR ''d'' \<in> set (o1 @ o2) \<or>
                  (\<exists>rs g1. explode_for (nat num_dice) sides [] g = Some (rs, g1) \<and> length rs = nat num_dice)"
      by blast+
    from False k1 have "keep_highest (fst ?po2) = 0" by (simp add: parse_options_no_k)
    then have z: "(fst ?po2)\<lparr>keep_highest := 0\<rparr> = fst ?po2" by simp
    have fl: "advantage (fst ?po2) = (CHR ''a'' \<in> set (o1 @ o2))"
      "disadvantage (fst ?po2) = (CHR ''d'' \<in> set (o1 @ o2))"
      "exploding (fst ?po2) = (CHR ''!'' \<in> set (o1 @ o2))"
      by (rule parse_options_flags parse_options_exploding)+
    have "advantage (fst ?po2) \<or> disadvantage (fst ?po2) \<or>
           (\<forall>rs bd g1. first_rolls (exploding (fst ?po2)) num_dice sides g = Some (rs, bd, g1)
               \<longrightarrow> length rs \<le> nat num_dice)"
    proof (cases "exploding (fst ?po2)")
      case False
      then show ?thesis using first_rolls_plain_length [of num_dice sides g] by auto
    next
      case True
      with c2 fl consider "advantage (fst ?po2) \<or> disadvantage (fst ?po2)"
        | rs0 g0 where "explode_for (nat num_dice) sides [] g = Some (rs0, g0)" "length rs0 = nat num_dice"
        by auto
      then show ?thesis
      proof cases
        case 1
        then show ?thesis by blast
      next
        case 2
        with True first_rolls_exploding [of num_dice sides g] show ?thesis by auto
      qed
    qed
    from keep_highest_count_noop [OF this, of ?e1 "snd ?po2"] z ex False po1 show ?thesis by simp
  qed
  have "roll_advanced ?e1 g = Some (Inr (r\<lparr>expression := ?e1\<rparr>), g')"
    unfolding roll_advanced_valid [OF m1 n sides v] using rw1 by simp
  moreover have "CHR ''k'' \<notin> set o2 \<longrightarrow>
               keep_highest (fst (parse_options num_dice (o1 @ ''k'' @ o2))) = num_dice"
    using po1 by simp
  ultimately show ?thesis using m1 m2 by simp
qed


theorem bare_k_same_as_without_witness:
  "roll_advanced ''2d4!'' example_rng =
     Some (Inr \<lparr>expression = ''2d4!'', rolls = [2, 1], total = 3,
                 breakdown = ''Exploding: [2, 1]''\<rparr>, example_rng\<lparr>pos := 2\<rparr>)
   \<and> explode_for (nat 2) 4 [] example_rng = Some ([2, 1], example_rng\<lparr>pos := 2\<rparr>)
   \<and> keep_highest (fst (parse_options 2 ''!k'')) = 2
   \<and> roll_advanced ''2d4!k'' example_rng =
     Some (Inr \<lparr>expression = ''2d4!k'', rolls = [2, 1], total = 3,
                 breakdown = ''Exploding: [2, 1]''\<rparr>, example_rng\<lparr>pos := 2\<rparr>)
   \<and> roll_advanced ''4d6k3'' example_rng =
     Some (Inr \<lparr>expression = ''4d6k3'', rolls = [6, 1, 1], total = 8,
                 breakdown = ''Rolls: [6, 1, 1, 1] (Keep highest 3)''\<rparr>, example_rng\<lparr>pos := 4\<rparr>)
   \<and> roll_advanced ''4d6Kk3'' example_rng =
     Some (Inr \<lparr>expression = ''4d6Kk3'', rolls = [6, 1, 1], total = 8,
                 breakdown = ''Rolls: [6, 1, 1, 1] (Keep highest 3)''\<rparr>, example_rng\<lparr>pos := 4\<rparr>)"
proof -
  have v: "(2::int) = (case Some ''2'' of Some ds \<Rightarrow> int_of_digits ds | None \<Rightarrow> 1)" "(4::int) = int_of_digits ''4''"
    "(4::int) = (case Some ''4'' of Some ds \<Rightarrow> int_of_digits ds | None \<Rightarrow> 1)" "(6::int) = int_of_digits ''6''"
    by (simp_all add: int_of_digits_def digit_val_def)
  have whole1: "remove_spaces (lower ''2d4!'') = (case Some ''2'' of Some ds \<Rightarrow> ds | None \<Rightarrow> []) @ ''d'' @ ''4'' @ ''!''"
    and whole2: "remove_spaces (lower ''4d6'') = (case Some ''4'' of Some ds \<Rightarrow> ds | None \<Rightarrow> []) @ ''d'' @ ''6'' @ []"
    by (simp_all add: remove_spaces_def lower_def lower_char_def)
  have bare1: "remove_spaces (lower []) = [] \<or> \<not> is_digit (hd (remove_spaces (lower [])))"
    and bare2: "remove_spaces (lower ''k3'') = [] \<or> \<not> is_digit (hd (remove_spaces (lower ''k3'')))"
    by (simp_all add: remove_spaces_def lower_def lower_char_def is_digit_def)
  have o21: "[] = adv_options (remove_spaces (lower []))"
    and o22: "''k3'' = adv_options (remove_spaces (lower ''k3''))"
    by (simp_all add: remove_spaces_def lower_def lower_char_def is_digit_def is_opchar_def)
  have mp1: "([]::string) = [] \<longrightarrow> mod_search ''!'' = None"
    and mp2: "''k3'' = [] \<longrightarrow> mod_search [] = None"
    by (simp_all add: is_sign_def)
  have ret1: "roll_advanced (''2d4!'' @ []) example_rng =
     Some (Inr \<lparr>expression = ''2d4!'', rolls = [2, 1], total = 3,
                 breakdown = ''Exploding: [2, 1]''\<rparr>, example_rng\<lparr>pos := 2\<rparr>)"
    using ex_2d4 by simp
  have ret2: "roll_advanced (''4d6'' @ ''k3'') example_rng =
     Some (Inr \<lparr>expression = ''4d6k3'', rolls = [6, 1, 1], total = 8,
                 breakdown = ''Rolls: [6, 1, 1, 1] (Keep highest 3)''\<rparr>, example_rng\<lparr>pos := 4\<rparr>)"
    using ex_4d6k3 by simp
  have cond1: "CHR ''k'' \<in> set [] \<or>
               (CHR ''k'' \<notin> set ''!'' \<and>
                 (CHR ''!'' \<notin> set (''!'' @ []) \<or> CHR ''a'' \<in> set (''!'' @ []) \<or> CHR ''d'' \<in> set (''!'' @ []) \<or>
                  (\<exists>rs g1. explode_for (nat 2) 4 [] example_rng = Some (rs, g1) \<and> length rs = nat 2)))"
    using ex_explode_for by simp
  have cond2: "CHR ''k'' \<in> set ''k3'' \<or>
               (CHR ''k'' \<notin> set [] \<and>
                 (CHR ''!'' \<notin> set ([] @ ''k3'') \<or> CHR ''a'' \<in> set ([] @ ''k3'') \<or> CHR ''d'' \<in> set ([] @ ''k3'') \<or>
                  (\<exists>rs g1. explode_for (nat 4) 6 [] example_rng = Some (rs, g1) \<and> length rs = nat 4)))"
    by simp
  have tag1: "CHR ''k'' = CHR ''k'' \<or> CHR ''k'' = CHR ''K''"
    and tag2: "CHR ''K'' = CHR ''k'' \<or> CHR ''K'' = CHR ''K''"
    by simp_all
  note a = bare_k_same_as_without [OF tag1 ex_adv_match4(5) whole1 bare1 o21 mp1 v(1,2) ret1 cond1]
  note b = bare_k_same_as_without [OF tag2 ex_adv_match4(6) whole2 bare2 o22 mp2 v(3,4) ret2 cond2]
  from a b ex_2d4 ex_explode_for ex_4d6k3 show ?thesis by simp
qed

end
